theory Spec2Isabelle
  imports Complex_Main
begin

section \<open>Floating-point values, idealised\<close>

text \<open>
  The source computes with IEEE floating-point numbers (numpy \<open>float64\<close> for the
  coefficient tables, TensorFlow \<open>float32\<close> for tensors). The model keeps the special
  values of that arithmetic and idealises the finite ones: a finite number is a real,
  finite operations are exact (no rounding, no overflow, no underflow), and zero has no
  sign (the only zeros the coefficient tables divide by are \<open>+0\<close>). The casts
  \<open>astype(np.float64)\<close> and \<open>tf.constant(..., dtype=tf_dtype)\<close> are therefore the
  identity. Under numpy's default error state a division by zero or an invalid operation
  produces an infinity or a NaN (with a warning), it does not raise. The rounding that
  this idealisation leaves out is modelled in the section on rounded floating-point
  arithmetic; every statement about numbers says which of the two arithmetics it is about.
\<close>

datatype fl = Fin real | PInf | NInf | NaN

fun fneg :: "fl \<Rightarrow> fl" where
  "fneg (Fin x) = Fin (- x)"
| "fneg PInf = NInf"
| "fneg NInf = PInf"
| "fneg NaN = NaN"

fun fadd :: "fl \<Rightarrow> fl \<Rightarrow> fl" where
  "fadd NaN _ = NaN"
| "fadd _ NaN = NaN"
| "fadd (Fin x) (Fin y) = Fin (x + y)"
| "fadd (Fin _) PInf = PInf"
| "fadd (Fin _) NInf = NInf"
| "fadd PInf (Fin _) = PInf"
| "fadd NInf (Fin _) = NInf"
| "fadd PInf PInf = PInf"
| "fadd NInf NInf = NInf"
| "fadd PInf NInf = NaN"
| "fadd NInf PInf = NaN"

definition fsub :: "fl \<Rightarrow> fl \<Rightarrow> fl" where
  "fsub a b = fadd a (fneg b)"

text \<open>The sign of a finite number times an infinity; zero times an infinity is NaN.\<close>

definition signed_inf :: "real \<Rightarrow> fl" where
  "signed_inf x = (if 0 < x then PInf else if x < 0 then NInf else NaN)"

fun fmul :: "fl \<Rightarrow> fl \<Rightarrow> fl" where
  "fmul NaN _ = NaN"
| "fmul _ NaN = NaN"
| "fmul (Fin x) (Fin y) = Fin (x * y)"
| "fmul (Fin x) PInf = signed_inf x"
| "fmul (Fin x) NInf = signed_inf (- x)"
| "fmul PInf (Fin y) = signed_inf y"
| "fmul NInf (Fin y) = signed_inf (- y)"
| "fmul PInf PInf = PInf"
| "fmul NInf NInf = PInf"
| "fmul PInf NInf = NInf"
| "fmul NInf PInf = NInf"

fun fdiv :: "fl \<Rightarrow> fl \<Rightarrow> fl" where
  "fdiv NaN _ = NaN"
| "fdiv _ NaN = NaN"
| "fdiv (Fin x) (Fin y) = (if y = 0 then signed_inf x else Fin (x / y))"
| "fdiv (Fin _) PInf = Fin 0"
| "fdiv (Fin _) NInf = Fin 0"
| "fdiv PInf (Fin y) = (if 0 \<le> y then PInf else NInf)"
| "fdiv NInf (Fin y) = (if 0 \<le> y then NInf else PInf)"
| "fdiv PInf PInf = NaN"
| "fdiv PInf NInf = NaN"
| "fdiv NInf PInf = NaN"
| "fdiv NInf NInf = NaN"

fun fsqrt :: "fl \<Rightarrow> fl" where
  "fsqrt (Fin x) = (if x < 0 then NaN else Fin (sqrt x))"
| "fsqrt PInf = PInf"
| "fsqrt NInf = NaN"
| "fsqrt NaN = NaN"

fun flog :: "fl \<Rightarrow> fl" where
  "flog (Fin x) = (if x < 0 then NaN else if x = 0 then NInf else Fin (ln x))"
| "flog PInf = PInf"
| "flog NInf = NaN"
| "flog NaN = NaN"

fun fexp :: "fl \<Rightarrow> fl" where
  "fexp (Fin x) = Fin (exp x)"
| "fexp PInf = PInf"
| "fexp NInf = Fin 0"
| "fexp NaN = NaN"

text \<open>Comparisons: every comparison with a NaN is false.\<close>

fun fless :: "fl \<Rightarrow> fl \<Rightarrow> bool" where
  "fless NaN _ = False"
| "fless _ NaN = False"
| "fless (Fin x) (Fin y) = (x < y)"
| "fless (Fin _) PInf = True"
| "fless (Fin _) NInf = False"
| "fless PInf _ = False"
| "fless NInf (Fin _) = True"
| "fless NInf PInf = True"
| "fless NInf NInf = False"

fun fle :: "fl \<Rightarrow> fl \<Rightarrow> bool" where
  "fle NaN _ = False"
| "fle _ NaN = False"
| "fle a b = (a = b \<or> fless a b)"

text \<open>\<open>np.maximum\<close> and \<open>tf.maximum\<close>/\<open>tf.minimum\<close>: a NaN operand gives NaN.\<close>

fun fmaximum :: "fl \<Rightarrow> fl \<Rightarrow> fl" where
  "fmaximum NaN _ = NaN"
| "fmaximum _ NaN = NaN"
| "fmaximum a b = (if fless a b then b else a)"

fun fminimum :: "fl \<Rightarrow> fl \<Rightarrow> fl" where
  "fminimum NaN _ = NaN"
| "fminimum _ NaN = NaN"
| "fminimum a b = (if fless b a then b else a)"

text \<open>\<open>tf.squared_difference(x, y) = (x - y) * (x - y)\<close>, elementwise.\<close>

definition squared_difference :: "fl \<Rightarrow> fl \<Rightarrow> fl" where
  "squared_difference x y = fmul (fsub x y) (fsub x y)"

section \<open>The Gaussian KL helper\<close>

text \<open>
  \<open>normal_kl\<close> (source lines 7-12) is an elementwise expression; the model gives it on one
  element. Python evaluates the sum left to right.
\<close>

definition normal_kl :: "fl \<Rightarrow> fl \<Rightarrow> fl \<Rightarrow> fl \<Rightarrow> fl" where
  "normal_kl mean1 logvar1 mean2 logvar2 =
     fmul (Fin 0.5)
       (fadd (fadd (fsub (fadd (Fin (- 1.0)) logvar2) logvar1)
                   (fexp (fsub logvar1 logvar2)))
             (fmul (squared_difference mean1 mean2) (fexp (fneg logvar2))))"

section \<open>Errors\<close>

text \<open>
  Every \<open>assert\<close> and \<open>raise\<close> of the source is a branch of the model.
  \<open>InvalidArgumentError\<close> is TensorFlow's error for a \<open>tf.gather\<close> index out of range
  (on CPU) and for a \<open>tf.reshape\<close> whose sizes do not match; \<open>IndexError\<close> is
  \<open>shape[0]\<close> on a shape of rank 0; \<open>ValueError\<close> is a tuple unpacking of the wrong
  length.
\<close>

datatype error =
    AssertionError
  | NotImplementedError string
  | InvalidArgumentError
  | IndexError
  | ValueError

section \<open>The coefficient table\<close>

text \<open>\<open>np.cumprod\<close>: the running product, \<open>out[0] = a[0]\<close>, \<open>out[i] = out[i-1] * a[i]\<close>.\<close>

fun cumprod_from :: "fl \<Rightarrow> fl list \<Rightarrow> fl list" where
  "cumprod_from p [] = []"
| "cumprod_from p (x # xs) = fmul p x # cumprod_from (fmul p x) xs"

definition cumprod :: "fl list \<Rightarrow> fl list" where
  "cumprod xs = (case xs of [] \<Rightarrow> [] | x # ys \<Rightarrow> x # cumprod_from x ys)"

record GaussianDiffusion =
  loss_type :: string
  np_betas :: "fl list"
  num_timesteps :: int
  betas :: "fl list"
  alphas_cumprod :: "fl list"
  alphas_cumprod_prev :: "fl list"
  sqrt_alphas_cumprod :: "fl list"
  sqrt_one_minus_alphas_cumprod :: "fl list"
  log_one_minus_alphas_cumprod :: "fl list"
  sqrt_recip_alphas_cumprod :: "fl list"
  sqrt_recipm1_alphas_cumprod :: "fl list"
  posterior_variance :: "fl list"
  posterior_log_variance_clipped :: "fl list"
  posterior_mean_coef1 :: "fl list"
  posterior_mean_coef2 :: "fl list"

text \<open>
  \<open>GaussianDiffusion.__init__\<close> (source lines 52-87). The argument is a one-dimensional
  array, so \<open>isinstance(betas, np.ndarray)\<close> and the unpacking \<open>timesteps, = betas.shape\<close>
  hold by type. \<open>alphas_cumprod[:-1]\<close> is \<open>butlast\<close>, also on the empty array.
\<close>

definition GaussianDiffusion_init :: "fl list \<Rightarrow> string \<Rightarrow> error + GaussianDiffusion" where
  "GaussianDiffusion_init betas_arg loss_type_arg =
     (if \<not> (list_all (\<lambda>b. fless (Fin 0) b) betas_arg \<and> list_all (\<lambda>b. fle b (Fin 1)) betas_arg)
      then Inl AssertionError
      else
        let timesteps = length betas_arg;
            alphas = map (\<lambda>b. fsub (Fin 1) b) betas_arg;
            acp = cumprod alphas;
            acp_prev = Fin 1 # butlast acp
        in if length acp_prev \<noteq> timesteps then Inl AssertionError
           else
             let pv = map2 fdiv (map2 fmul betas_arg (map (\<lambda>a. fsub (Fin 1) a) acp_prev))
                                (map (\<lambda>a. fsub (Fin 1) a) acp)
             in Inr \<lparr> loss_type = loss_type_arg,
                      np_betas = betas_arg,
                      num_timesteps = int timesteps,
                      betas = betas_arg,
                      alphas_cumprod = acp,
                      alphas_cumprod_prev = acp_prev,
                      sqrt_alphas_cumprod = map fsqrt acp,
                      sqrt_one_minus_alphas_cumprod = map (\<lambda>a. fsqrt (fsub (Fin 1) a)) acp,
                      log_one_minus_alphas_cumprod = map (\<lambda>a. flog (fsub (Fin 1) a)) acp,
                      sqrt_recip_alphas_cumprod = map (\<lambda>a. fsqrt (fdiv (Fin 1) a)) acp,
                      sqrt_recipm1_alphas_cumprod =
                        map (\<lambda>a. fsqrt (fsub (fdiv (Fin 1) a) (Fin 1))) acp,
                      posterior_variance = pv,
                      posterior_log_variance_clipped =
                        map (\<lambda>v. flog (fmaximum v (Fin (1 / 10 ^ 20)))) pv,
                      posterior_mean_coef1 =
                        map2 fdiv (map2 fmul betas_arg (map fsqrt acp_prev))
                                  (map (\<lambda>a. fsub (Fin 1) a) acp),
                      posterior_mean_coef2 =
                        map2 fdiv (map2 fmul (map (\<lambda>a. fsub (Fin 1) a) acp_prev) (map fsqrt alphas))
                                  (map (\<lambda>a. fsub (Fin 1) a) acp) \<rparr>)"

section \<open>Tensors\<close>

text \<open>
  A tensor of shape \<open>[B, d1, ..., dk]\<close> is its static shape and its data, one row per
  batch element, each row the flattened \<open>d1 * ... * dk\<close> entries of that element. A batch
  of timesteps \<open>t\<close> is a one-dimensional integer tensor, a list of integers.
\<close>

record tensor =
  shape :: "nat list"
  rows :: "fl list list"

definition wf_tensor :: "tensor \<Rightarrow> bool" where
  "wf_tensor x =
     (case shape x of
        [] \<Rightarrow> False
      | b # rest \<Rightarrow> length (rows x) = b \<and> list_all (\<lambda>r. length r = prod_list rest) (rows x))"

fun is_fin :: "fl \<Rightarrow> bool" where
  "is_fin (Fin _) = True"
| "is_fin _ = False"

definition finite_tensor :: "tensor \<Rightarrow> bool" where
  "finite_tensor x = list_all (list_all is_fin) (rows x)"

text \<open>
  Elementwise operators with broadcasting. The source applies \<open>*\<close>, \<open>+\<close> and \<open>-\<close> to two
  tensors whose batch dimensions agree and that either have the same shape or where one
  has shape \<open>[B, 1, ..., 1]\<close> (the result of \<open>_extract\<close>); within a batch element a row of
  one entry is broadcast against the other row.
\<close>

definition bdim :: "nat \<Rightarrow> nat \<Rightarrow> nat" where
  "bdim d1 d2 = (if d1 = 1 then d2 else d1)"

fun bcast2 :: "(fl \<Rightarrow> fl \<Rightarrow> fl) \<Rightarrow> fl list \<Rightarrow> fl list \<Rightarrow> fl list" where
  "bcast2 f [k] ys = map (f k) ys"
| "bcast2 f xs [k] = map (\<lambda>x. f x k) xs"
| "bcast2 f xs ys = map2 f xs ys"

definition tbin :: "(fl \<Rightarrow> fl \<Rightarrow> fl) \<Rightarrow> tensor \<Rightarrow> tensor \<Rightarrow> tensor" where
  "tbin f x y = \<lparr> shape = map2 bdim (shape x) (shape y),
                  rows = map2 (bcast2 f) (rows x) (rows y) \<rparr>"

definition tmap :: "(fl \<Rightarrow> fl) \<Rightarrow> tensor \<Rightarrow> tensor" where
  "tmap f x = \<lparr> shape = shape x, rows = map (map f) (rows x) \<rparr>"

text \<open>
  \<open>tf.clip_by_value(x, lo, hi)\<close> is \<open>tf.maximum(tf.minimum(x, hi), lo)\<close>.
\<close>

definition clip_by_value :: "tensor \<Rightarrow> fl \<Rightarrow> fl \<Rightarrow> tensor" where
  "clip_by_value x lo hi = tmap (\<lambda>v. fmaximum (fminimum v hi) lo) x"

section \<open>Collaborators\<close>

text \<open>
  The denoising function is an opaque function of a noisy sample and a timestep batch. A
  random source (\<open>tf.random_normal\<close>, or the \<open>noise_fn\<close> argument) is a function of the
  requested shape and the state of the generator, returning the draw and the new state.
\<close>

type_synonym denoise = "tensor \<Rightarrow> int list \<Rightarrow> tensor"

type_synonym 'g noise_source = "nat list \<Rightarrow> 'g \<Rightarrow> tensor \<times> 'g"

text \<open>
  \<open>noise_like\<close> (source lines 41-44). With \<open>repeat\<close>, one draw of shape
  \<open>(1, *shape[1:])\<close> is repeated \<open>shape[0]\<close> times along axis 0 by \<open>tf.repeat\<close>.
\<close>

definition tf_repeat0 :: "tensor \<Rightarrow> nat \<Rightarrow> error + tensor" where
  "tf_repeat0 z n =
     (case shape z of
        [] \<Rightarrow> Inl InvalidArgumentError
      | d # rest \<Rightarrow> Inr \<lparr> shape = (d * n) # rest, rows = concat (map (replicate n) (rows z)) \<rparr>)"

definition noise_like :: "nat list \<Rightarrow> 'g noise_source \<Rightarrow> bool \<Rightarrow> 'g \<Rightarrow> error + (tensor \<times> 'g)" where
  "noise_like shp noise_fn repeat g =
     (if repeat then
        (case noise_fn (1 # tl shp) g of
           (z, g') \<Rightarrow>
             (case shp of
                [] \<Rightarrow> Inl IndexError
              | b # _ \<Rightarrow>
                  (case tf_repeat0 z b of Inl e \<Rightarrow> Inl e | Inr n \<Rightarrow> Inr (n, g'))))
      else Inr (noise_fn shp g))"

section \<open>Coefficient gathering\<close>

text \<open>
  \<open>GaussianDiffusion._extract\<close> (source lines 89-99): \<open>out[i] = a[t[i]]\<close>, reshaped to
  \<open>[bs, 1, ..., 1]\<close>. After the gather \<open>out.shape == [bs]\<close> holds by construction.
\<close>

definition extract_coef :: "fl list \<Rightarrow> int list \<Rightarrow> nat list \<Rightarrow> error + tensor" where
  "extract_coef a t x_shape =
     (let bs = length t in
      case x_shape of
        [] \<Rightarrow> Inl IndexError
      | b # _ \<Rightarrow>
          if b \<noteq> bs then Inl AssertionError
          else if \<not> list_all (\<lambda>i. 0 \<le> i \<and> i < int (length a)) t then Inl InvalidArgumentError
          else Inr \<lparr> shape = bs # replicate (length x_shape - 1) 1,
                     rows = map (\<lambda>i. [a ! nat i]) t \<rparr>)"

section \<open>The forward process\<close>

text \<open>\<open>q_sample\<close> (source lines 113-125); \<open>random_normal\<close> stands for \<open>tf.random_normal\<close>.\<close>

definition q_sample ::
  "GaussianDiffusion \<Rightarrow> 'g noise_source \<Rightarrow> tensor \<Rightarrow> int list \<Rightarrow> tensor option \<Rightarrow> 'g
    \<Rightarrow> error + (tensor \<times> 'g)" where
  "q_sample self random_normal x_start t noise_arg g =
     (case (case noise_arg of None \<Rightarrow> random_normal (shape x_start) g | Some n \<Rightarrow> (n, g)) of
        (noise, g') \<Rightarrow>
          if shape noise \<noteq> shape x_start then Inl AssertionError
          else
            (case extract_coef (sqrt_alphas_cumprod self) t (shape x_start) of
               Inl e \<Rightarrow> Inl e
             | Inr c1 \<Rightarrow>
                 (case extract_coef (sqrt_one_minus_alphas_cumprod self) t (shape x_start) of
                    Inl e \<Rightarrow> Inl e
                  | Inr c2 \<Rightarrow>
                      Inr (tbin fadd (tbin fmul c1 x_start) (tbin fmul c2 noise), g'))))"

text \<open>\<open>predict_start_from_noise\<close> (source lines 127-132).\<close>

definition predict_start_from_noise ::
  "GaussianDiffusion \<Rightarrow> tensor \<Rightarrow> int list \<Rightarrow> tensor \<Rightarrow> error + tensor" where
  "predict_start_from_noise self x_t t noise =
     (if shape x_t \<noteq> shape noise then Inl AssertionError
      else
        (case extract_coef (sqrt_recip_alphas_cumprod self) t (shape x_t) of
           Inl e \<Rightarrow> Inl e
         | Inr c1 \<Rightarrow>
             (case extract_coef (sqrt_recipm1_alphas_cumprod self) t (shape x_t) of
                Inl e \<Rightarrow> Inl e
              | Inr c2 \<Rightarrow> Inr (tbin fsub (tbin fmul c1 x_t) (tbin fmul c2 noise)))))"

text \<open>\<open>q_posterior\<close> (source lines 134-147).\<close>

definition q_posterior ::
  "GaussianDiffusion \<Rightarrow> tensor \<Rightarrow> tensor \<Rightarrow> int list \<Rightarrow> error + (tensor \<times> tensor \<times> tensor)" where
  "q_posterior self x_start x_t t =
     (if shape x_start \<noteq> shape x_t then Inl AssertionError
      else
        (case extract_coef (posterior_mean_coef1 self) t (shape x_t) of
           Inl e \<Rightarrow> Inl e
         | Inr c1 \<Rightarrow>
        (case extract_coef (posterior_mean_coef2 self) t (shape x_t) of
           Inl e \<Rightarrow> Inl e
         | Inr c2 \<Rightarrow>
        (case extract_coef (posterior_variance self) t (shape x_t) of
           Inl e \<Rightarrow> Inl e
         | Inr pvar \<Rightarrow>
        (case extract_coef (posterior_log_variance_clipped self) t (shape x_t) of
           Inl e \<Rightarrow> Inl e
         | Inr plogvar \<Rightarrow>
             let posterior_mean = tbin fadd (tbin fmul c1 x_start) (tbin fmul c2 x_t) in
             if \<not> (take 1 (shape posterior_mean) = take 1 (shape pvar)
                   \<and> take 1 (shape pvar) = take 1 (shape plogvar)
                   \<and> take 1 (shape plogvar) = take 1 (shape x_start))
             then Inl AssertionError
             else Inr (posterior_mean, pvar, plogvar))))))"

section \<open>The training loss\<close>

text \<open>
  Modelled from the spec: \<open>nn.meanflat\<close>, a helper of the repository's \<open>nn\<close> module that
  is not among the sources. The spec says the loss is "the per-example mean squared error
  between \<open>noise\<close> and the prediction, reduced over all non-batch dimensions (shape \<open>[B]\<close>
  result)": for each batch element, the sum of its entries divided by their number.
\<close>

definition fsum :: "fl list \<Rightarrow> fl" where
  "fsum xs = foldl fadd (Fin 0) xs"

definition meanflat :: "tensor \<Rightarrow> fl list" where
  "meanflat x = map (\<lambda>r. fdiv (fsum r) (Fin (real (length r)))) (rows x)"

text \<open>
  \<open>p_losses\<close> (source lines 149-172). The unpacking \<open>B, H, W, C = x_start.shape.as_list()\<close>
  fails unless the shape has four entries. The result is the vector of shape \<open>[B]\<close> and
  the state of the random source.
\<close>

definition p_losses ::
  "GaussianDiffusion \<Rightarrow> 'g noise_source \<Rightarrow> denoise \<Rightarrow> tensor \<Rightarrow> int list \<Rightarrow> tensor option \<Rightarrow> 'g
    \<Rightarrow> error + (fl list \<times> 'g)" where
  "p_losses self random_normal denoise_fn x_start t noise_arg g =
     (if length (shape x_start) \<noteq> 4 then Inl ValueError
      else
        let B = shape x_start ! 0; H = shape x_start ! 1; W = shape x_start ! 2 in
        if length t \<noteq> B then Inl AssertionError
        else
          (case (case noise_arg of None \<Rightarrow> random_normal (shape x_start) g | Some n \<Rightarrow> (n, g)) of
             (noise, g1) \<Rightarrow>
               if shape noise \<noteq> shape x_start then Inl AssertionError
               else
                 (case q_sample self random_normal x_start t (Some noise) g1 of
                    Inl e \<Rightarrow> Inl e
                  | Inr (x_noisy, g2) \<Rightarrow>
                      let x_recon = denoise_fn x_noisy t in
                      if shape x_noisy \<noteq> shape x_start then Inl AssertionError
                      else if \<not> (take 3 (shape x_recon) = [B, H, W] \<and> length (shape x_recon) = 4)
                      then Inl AssertionError
                      else if loss_type self = ''noisepred'' then
                        (if shape x_recon \<noteq> shape x_start then Inl AssertionError
                         else
                           let losses = meanflat (tbin squared_difference noise x_recon) in
                           if length losses \<noteq> B then Inl AssertionError
                           else Inr (losses, g2))
                      else Inl (NotImplementedError (loss_type self)))))"

section \<open>The reverse process\<close>

text \<open>\<open>p_mean_variance\<close> (source lines 174-186).\<close>

definition p_mean_variance ::
  "GaussianDiffusion \<Rightarrow> denoise \<Rightarrow> tensor \<Rightarrow> int list \<Rightarrow> bool
    \<Rightarrow> error + (tensor \<times> tensor \<times> tensor)" where
  "p_mean_variance self denoise_fn x t clip_denoised =
     (if loss_type self = ''noisepred'' then
        (case predict_start_from_noise self x t (denoise_fn x t) of
           Inl e \<Rightarrow> Inl e
         | Inr x_recon0 \<Rightarrow>
             let x_recon = (if clip_denoised then clip_by_value x_recon0 (Fin (- 1)) (Fin 1)
                            else x_recon0) in
             (case q_posterior self x_recon x t of
                Inl e \<Rightarrow> Inl e
              | Inr (model_mean, pvar, plogvar) \<Rightarrow>
                  if \<not> (shape model_mean = shape x_recon \<and> shape x_recon = shape x)
                  then Inl AssertionError
                  else if \<not> (shape pvar = shape plogvar
                              \<and> shape plogvar = [hd (shape x), 1, 1, 1])
                  then Inl AssertionError
                  else Inr (model_mean, pvar, plogvar)))
      else Inl (NotImplementedError (loss_type self)))"

text \<open>
  \<open>p_sample\<close> (source lines 188-197). \<open>nonzero_mask\<close> is \<open>1 - cast(t == 0)\<close> reshaped to
  \<open>[x.shape[0], 1, ..., 1]\<close>; the reshape needs \<open>len(t) == x.shape[0]\<close>.
\<close>

definition nonzero_mask :: "tensor \<Rightarrow> int list \<Rightarrow> error + tensor" where
  "nonzero_mask x t =
     (case shape x of
        [] \<Rightarrow> Inl IndexError
      | b # rest \<Rightarrow>
          if length t \<noteq> b then Inl InvalidArgumentError
          else Inr \<lparr> shape = b # replicate (length rest) 1,
                     rows = map (\<lambda>i. [fsub (Fin 1) (if i = 0 then Fin 1 else Fin 0)]) t \<rparr>)"

definition p_sample ::
  "GaussianDiffusion \<Rightarrow> denoise \<Rightarrow> tensor \<Rightarrow> int list \<Rightarrow> 'g noise_source \<Rightarrow> bool \<Rightarrow> bool \<Rightarrow> 'g
    \<Rightarrow> error + (tensor \<times> 'g)" where
  "p_sample self denoise_fn x t noise_fn clip_denoised repeat_noise g =
     (case p_mean_variance self denoise_fn x t clip_denoised of
        Inl e \<Rightarrow> Inl e
      | Inr (model_mean, _, model_log_variance) \<Rightarrow>
          (case noise_like (shape x) noise_fn repeat_noise g of
             Inl e \<Rightarrow> Inl e
           | Inr (noise, g') \<Rightarrow>
               if shape noise \<noteq> shape x then Inl AssertionError
               else
                 (case nonzero_mask x t of
                    Inl e \<Rightarrow> Inl e
                  | Inr nz_mask \<Rightarrow>
                      Inr (tbin fadd model_mean
                             (tbin fmul
                                (tbin fmul nz_mask (tmap fexp (tmap (fmul (Fin 0.5)) model_log_variance)))
                                noise),
                           g'))))"

text \<open>
  \<open>p_sample_loop\<close> (source lines 199-217). The \<open>tf.while_loop\<close> carries \<open>(i_, img_)\<close>; the
  model also carries the state of the random source. \<open>tf.fill([shape[0]], i_)\<close> is
  \<open>replicate\<close>. \<open>p_sample\<close> is called with its defaults \<open>clip_denoised=True\<close> and
  \<open>repeat_noise=False\<close>.
\<close>

function p_sample_while ::
  "GaussianDiffusion \<Rightarrow> denoise \<Rightarrow> nat list \<Rightarrow> 'g noise_source \<Rightarrow> int \<Rightarrow> tensor \<Rightarrow> 'g
    \<Rightarrow> error + (int \<times> tensor \<times> 'g)" where
  "p_sample_while self denoise_fn shp noise_fn i img g =
     (if 0 \<le> i then
        (case shp of
           [] \<Rightarrow> Inl IndexError
         | b # _ \<Rightarrow>
             (case p_sample self denoise_fn img (replicate b i) noise_fn True False g of
                Inl e \<Rightarrow> Inl e
              | Inr (img', g') \<Rightarrow> p_sample_while self denoise_fn shp noise_fn (i - 1) img' g'))
      else Inr (i, img, g))"
  by pat_completeness auto
termination
  by (relation "measure (\<lambda>(self, denoise_fn, shp, noise_fn, i, img, g). nat (i + 1))") auto

definition p_sample_loop ::
  "GaussianDiffusion \<Rightarrow> denoise \<Rightarrow> nat list \<Rightarrow> 'g noise_source \<Rightarrow> 'g \<Rightarrow> error + (tensor \<times> 'g)" where
  "p_sample_loop self denoise_fn shp noise_fn g =
     (let i_0 = num_timesteps self - 1 in
      case noise_fn shp g of
        (img_0, g0) \<Rightarrow>
          (case p_sample_while self denoise_fn shp noise_fn i_0 img_0 g0 of
             Inl e \<Rightarrow> Inl e
           | Inr (_, img_final, g') \<Rightarrow>
               if shape img_final \<noteq> shp then Inl AssertionError else Inr (img_final, g')))"

text \<open>
  \<open>p_sample_loop_trajectory\<close> (source lines 219-265): two \<open>tf.while_loop\<close>s over the growing
  sequences \<open>times_\<close> (here \<open>tms\<close>) and \<open>imgs_\<close>; \<open>times_[-1]\<close> and \<open>imgs_[-1]\<close> are
  \<open>last\<close>, and fail on an empty sequence.
\<close>

function repeat_noise_while ::
  "GaussianDiffusion \<Rightarrow> denoise \<Rightarrow> nat list \<Rightarrow> 'g noise_source \<Rightarrow> int \<Rightarrow> int list \<Rightarrow> tensor list \<Rightarrow> 'g
    \<Rightarrow> error + (int list \<times> tensor list \<times> 'g)" where
  "repeat_noise_while self denoise_fn shp noise_fn repeat_noise_steps tms imgs g =
     (if tms = [] \<or> imgs = [] then Inl IndexError
      else if num_timesteps self - last tms \<le> repeat_noise_steps then
        (case shp of
           [] \<Rightarrow> Inl IndexError
         | b # _ \<Rightarrow>
             (case p_sample self denoise_fn (last imgs) (replicate b (last tms)) noise_fn True True g of
                Inl e \<Rightarrow> Inl e
              | Inr (img', g') \<Rightarrow>
                  repeat_noise_while self denoise_fn shp noise_fn repeat_noise_steps
                    (tms @ [last tms - 1]) (imgs @ [img']) g'))
      else Inr (tms, imgs, g))"
  by pat_completeness auto
termination
  by (relation "measure (\<lambda>(self, denoise_fn, shp, noise_fn, r, tms, imgs, g).
                  nat (r - (num_timesteps self - last tms) + 1))") auto

function independent_noise_while ::
  "GaussianDiffusion \<Rightarrow> denoise \<Rightarrow> nat list \<Rightarrow> 'g noise_source \<Rightarrow> int list \<Rightarrow> tensor list \<Rightarrow> 'g
    \<Rightarrow> error + (int list \<times> tensor list \<times> 'g)" where
  "independent_noise_while self denoise_fn shp noise_fn tms imgs g =
     (if tms = [] \<or> imgs = [] then Inl IndexError
      else if 0 \<le> last tms then
        (case shp of
           [] \<Rightarrow> Inl IndexError
         | b # _ \<Rightarrow>
             (case p_sample self denoise_fn (last imgs) (replicate b (last tms)) noise_fn True False g of
                Inl e \<Rightarrow> Inl e
              | Inr (img', g') \<Rightarrow>
                  independent_noise_while self denoise_fn shp noise_fn
                    (tms @ [last tms - 1]) (imgs @ [img']) g'))
      else Inr (tms, imgs, g))"
  by pat_completeness auto
termination
  by (relation "measure (\<lambda>(self, denoise_fn, shp, noise_fn, tms, imgs, g).
                  nat (last tms + 1))") auto

definition p_sample_loop_trajectory ::
  "GaussianDiffusion \<Rightarrow> denoise \<Rightarrow> nat list \<Rightarrow> 'g noise_source \<Rightarrow> int \<Rightarrow> 'g
    \<Rightarrow> error + (int list \<times> tensor list \<times> 'g)" where
  "p_sample_loop_trajectory self denoise_fn shp noise_fn repeat_noise_steps g =
     (let i_0 = num_timesteps self - 1 in
      case noise_like shp noise_fn (0 \<le> repeat_noise_steps) g of
        Inl e \<Rightarrow> Inl e
      | Inr (img_0, g0) \<Rightarrow>
          (case repeat_noise_while self denoise_fn shp noise_fn repeat_noise_steps [i_0] [img_0] g0 of
             Inl e \<Rightarrow> Inl e
           | Inr (times1, imgs1, g1) \<Rightarrow>
               (case independent_noise_while self denoise_fn shp noise_fn times1 imgs1 g1 of
                  Inl e \<Rightarrow> Inl e
                | Inr (times2, imgs2, g2) \<Rightarrow>
                    if imgs2 = [] then Inl IndexError
                    else if shape (last imgs2) \<noteq> shp then Inl AssertionError
                    else Inr (times2, imgs2, g2))))"

section \<open>Rounded floating-point arithmetic\<close>












section \<open>Notions used in the statements\<close>

text \<open>A value lies in \<open>(0, 1]\<close>: it is finite, positive and at most one.\<close>

definition in_unit_interval :: "fl \<Rightarrow> bool" where
  "in_unit_interval b = (case b of Fin r \<Rightarrow> 0 < r \<and> r \<le> 1 | _ \<Rightarrow> False)"

text \<open>
  The product of the first \<open>k\<close> alphas \<open>1 - beta\<close> of a sequence of real betas, the value
  of the running product \<open>np.cumprod\<close> computes.
\<close>

definition abar :: "real list \<Rightarrow> nat \<Rightarrow> real" where
  "abar rs k = prod_list (map (\<lambda>r. 1 - r) (take k rs))"

text \<open>
  The reverse steps of a sampling run as the spec words them: one \<open>p_sample\<close> per
  timestep of a list, each applied to the output of the one before, stopping at the first
  error.
\<close>

fun reverse_steps ::
  "GaussianDiffusion \<Rightarrow> denoise \<Rightarrow> nat \<Rightarrow> 'g noise_source \<Rightarrow> int list \<Rightarrow> tensor \<Rightarrow> 'g
    \<Rightarrow> error + (tensor \<times> 'g)" where
  "reverse_steps gd dn b nf [] img g = Inr (img, g)"
| "reverse_steps gd dn b nf (i # is) img g =
     (case p_sample gd dn img (replicate b i) nf True False g of
        Inl e \<Rightarrow> Inl e
      | Inr (img', g') \<Rightarrow> reverse_steps gd dn b nf is img' g')"

text \<open>The timesteps \<open>n - 1, n - 2, ..., 0\<close>.\<close>

definition countdown :: "nat \<Rightarrow> int list" where
  "countdown n = rev (map int [0..<n])"

text \<open>
  A run of reverse steps that records the trajectory: one \<open>p_sample\<close> per entry
  \<open>(t, repeat_noise)\<close> of a list of calls, applied to the last image recorded, appending
  \<open>t - 1\<close> to the timesteps and the result to the images, stopping at the first error.
\<close>

fun trajectory_steps ::
  "GaussianDiffusion \<Rightarrow> denoise \<Rightarrow> nat \<Rightarrow> 'g noise_source \<Rightarrow> (int \<times> bool) list
    \<Rightarrow> int list \<Rightarrow> tensor list \<Rightarrow> 'g \<Rightarrow> error + (int list \<times> tensor list \<times> 'g)" where
  "trajectory_steps gd dn b nf [] tms imgs g = Inr (tms, imgs, g)"
| "trajectory_steps gd dn b nf (c # cs) tms imgs g =
     (case p_sample gd dn (last imgs) (replicate b (fst c)) nf True (snd c) g of
        Inl e \<Rightarrow> Inl e
      | Inr (img', g') \<Rightarrow> trajectory_steps gd dn b nf cs (tms @ [fst c - 1]) (imgs @ [img']) g')"

text \<open>
  The calls of a trajectory of \<open>T\<close> timesteps with \<open>repeat_noise_steps = r\<close>, as the
  docstring of the source words them ("number of denoising timesteps in which the same
  noise is used across the batch"): the timesteps \<open>T-1, ..., 0\<close>, the first \<open>r\<close> of them
  with \<open>repeat_noise = True\<close>, the others with \<open>repeat_noise = False\<close>.
\<close>

definition trajectory_calls :: "nat \<Rightarrow> int \<Rightarrow> (int \<times> bool) list" where
  "trajectory_calls T r =
     map (\<lambda>t. (t, True)) (take (nat r) (countdown T)) @
     map (\<lambda>t. (t, False)) (drop (nat r) (countdown T))"

section \<open>The KL helper on identical distributions\<close>

text \<open>
  C10. The KL divergence of a Gaussian from itself is zero: for every finite mean \<open>m\<close>
  and finite log-variance \<open>v\<close>, \<open>normal_kl(m, v, m, v) = 0\<close> exactly over the reals.
\<close>

theorem normal_kl_self_zero: "normal_kl (Fin m) (Fin v) (Fin m) (Fin v) = Fin 0"
  by (simp add: normal_kl_def fsub_def squared_difference_def)

section \<open>Properties of the coefficient table\<close>


lemma in_unit_interval_iff: "in_unit_interval b \<longleftrightarrow> fless (Fin 0) b \<and> fle b (Fin 1)"
  by (cases b) (auto simp: in_unit_interval_def)

lemma list_all_Fin_ex: "list_all in_unit_interval bs \<Longrightarrow> \<exists>rs. bs = map Fin rs \<and> (\<forall>r\<in>set rs. 0 < r \<and> r \<le> 1)"
proof (induction bs)
  case Nil then show ?case by simp
next
  case (Cons b bs)
  then obtain rs where rs: "bs = map Fin rs" "\<forall>r\<in>set rs. 0 < r \<and> r \<le> 1" by auto
  from Cons.prems obtain r where r: "b = Fin r" "0 < r" "r \<le> 1"
    by (cases b) (auto simp: in_unit_interval_def)
  have "b # bs = map Fin (r # rs)" using r rs by simp
  moreover have "\<forall>q\<in>set (r # rs). 0 < q \<and> q \<le> 1" using r rs by simp
  ultimately show ?case by (intro exI[of _ "r # rs"] conjI)
qed

lemma cumprod_from_Fin:
  "cumprod_from (Fin p) (map Fin xs) = map (\<lambda>k. Fin (p * prod_list (take (Suc k) xs))) [0..<length xs]"
proof (induction xs arbitrary: p)
  case Nil then show ?case by simp
next
  case (Cons x xs)
  have "[0..<length (x # xs)] = 0 # map Suc [0..<length xs]"
    by (simp add: upt_conv_Cons map_Suc_upt del: upt_Suc)
  then show ?case using Cons.IH[of "p * x"] by (simp add: mult.assoc comp_def del: upt_Suc)
qed

lemma cumprod_Fin:
  "cumprod (map Fin xs) = map (\<lambda>k. Fin (prod_list (take (Suc k) xs))) [0..<length xs]"
proof (cases xs)
  case Nil then show ?thesis by (simp add: cumprod_def)
next
  case (Cons x ys)
  have "[0..<length (x # ys)] = 0 # map Suc [0..<length ys]"
    by (simp add: upt_conv_Cons map_Suc_upt del: upt_Suc)
  then show ?thesis using Cons by (simp add: cumprod_def cumprod_from_Fin comp_def del: upt_Suc)
qed

lemma length_cumprod_from: "length (cumprod_from p xs) = length xs"
  by (induction xs arbitrary: p) auto

lemma length_cumprod: "length (cumprod xs) = length xs"
  by (cases xs) (auto simp: cumprod_def length_cumprod_from)


lemma list_all_in_unit: "list_all in_unit_interval bs \<longleftrightarrow>
   list_all (\<lambda>b. fless (Fin 0) b) bs \<and> list_all (\<lambda>b. fle b (Fin 1)) bs"
  by (induction bs) (auto simp: in_unit_interval_iff)

lemma init_fails:
  assumes "bs = [] \<or> \<not> list_all in_unit_interval bs"
  shows "GaussianDiffusion_init bs lt = Inl AssertionError"
  using assms
  by (auto simp: GaussianDiffusion_init_def Let_def list_all_in_unit length_cumprod cumprod_def)

lemma init_succeeds:
  assumes "bs \<noteq> []" "list_all in_unit_interval bs"
  shows "\<exists>gd. GaussianDiffusion_init bs lt = Inr gd \<and> np_betas gd = bs \<and> betas gd = bs
           \<and> loss_type gd = lt \<and> num_timesteps gd = int (length bs)"
proof -
  have "length (Fin 1 # butlast (cumprod (map (\<lambda>b. fsub (Fin 1) b) bs))) = length bs"
    using assms(1) by (simp add: length_cumprod)
  then show ?thesis
    using assms(2) by (simp add: GaussianDiffusion_init_def Let_def list_all_in_unit)
qed


lemma map_fsub_Fin: "map (\<lambda>b. fsub (Fin 1) b) (map Fin rs) = map Fin (map (\<lambda>r. 1 - r) rs)"
  by (simp add: fsub_def)

lemma cumprod_alphas:
  "cumprod (map (\<lambda>b. fsub (Fin 1) b) (map Fin rs)) = map (\<lambda>k. Fin (abar rs (Suc k))) [0..<length rs]"
  unfolding map_fsub_Fin cumprod_Fin abar_def by (simp add: take_map del: upt_Suc)

lemma prev_shift:
  assumes "0 < n"
  shows "f 0 # butlast (map (\<lambda>k. f (Suc k)) [0..<n]) = map f [0..<n]"
proof -
  obtain m where m: "n = Suc m" using assms by (cases n) auto
  have "butlast (map (\<lambda>k. f (Suc k)) [0..<Suc m]) = map (\<lambda>k. f (Suc k)) [0..<m]"
    by (simp add: map_butlast[symmetric])
  moreover have "map f [0..<Suc m] = f 0 # map (\<lambda>k. f (Suc k)) [0..<m]"
    by (simp add: upt_conv_Cons map_Suc_upt[symmetric] comp_def del: upt_Suc)
  ultimately show ?thesis using m by simp
qed

lemma init_tables:
  assumes "GaussianDiffusion_init (map Fin rs) lt = Inr gd"
  shows "rs \<noteq> []"
    and "loss_type gd = lt"
    and "num_timesteps gd = int (length rs)"
    and "betas gd = map Fin rs"
    and "alphas_cumprod gd = map (\<lambda>k. Fin (abar rs (Suc k))) [0..<length rs]"
    and "alphas_cumprod_prev gd = map (\<lambda>k. Fin (abar rs k)) [0..<length rs]"
    and "sqrt_alphas_cumprod gd = map fsqrt (alphas_cumprod gd)"
    and "sqrt_one_minus_alphas_cumprod gd = map (\<lambda>a. fsqrt (fsub (Fin 1) a)) (alphas_cumprod gd)"
    and "sqrt_recip_alphas_cumprod gd = map (\<lambda>a. fsqrt (fdiv (Fin 1) a)) (alphas_cumprod gd)"
    and "sqrt_recipm1_alphas_cumprod gd =
           map (\<lambda>a. fsqrt (fsub (fdiv (Fin 1) a) (Fin 1))) (alphas_cumprod gd)"
    and "posterior_variance gd =
           map2 fdiv (map2 fmul (betas gd) (map (\<lambda>a. fsub (Fin 1) a) (alphas_cumprod_prev gd)))
                     (map (\<lambda>a. fsub (Fin 1) a) (alphas_cumprod gd))"
    and "posterior_log_variance_clipped gd =
           map (\<lambda>v. flog (fmaximum v (Fin (1 / 10 ^ 20)))) (posterior_variance gd)"
proof -
  show ne: "rs \<noteq> []"
    using assms by (auto simp: GaussianDiffusion_init_def Let_def cumprod_def split: if_splits)
  have prev: "Fin 1 # butlast (cumprod (map (\<lambda>b. fsub (Fin 1) b) (map Fin rs)))
                = map (\<lambda>k. Fin (abar rs k)) [0..<length rs]"
    unfolding cumprod_alphas
    using prev_shift[of "length rs" "\<lambda>k. Fin (abar rs k)"] ne by (simp add: abar_def)
  have gd: "gd = \<lparr> loss_type = lt,
                      np_betas = map Fin rs,
                      num_timesteps = int (length rs),
                      betas = map Fin rs,
                      alphas_cumprod = cumprod (map (\<lambda>b. fsub (Fin 1) b) (map Fin rs)),
                      alphas_cumprod_prev = Fin 1 # butlast (cumprod (map (\<lambda>b. fsub (Fin 1) b) (map Fin rs))),
                      sqrt_alphas_cumprod = sqrt_alphas_cumprod gd,
                      sqrt_one_minus_alphas_cumprod = sqrt_one_minus_alphas_cumprod gd,
                      log_one_minus_alphas_cumprod = log_one_minus_alphas_cumprod gd,
                      sqrt_recip_alphas_cumprod = sqrt_recip_alphas_cumprod gd,
                      sqrt_recipm1_alphas_cumprod = sqrt_recipm1_alphas_cumprod gd,
                      posterior_variance = posterior_variance gd,
                      posterior_log_variance_clipped = posterior_log_variance_clipped gd,
                      posterior_mean_coef1 = posterior_mean_coef1 gd,
                      posterior_mean_coef2 = posterior_mean_coef2 gd \<rparr>"
    using assms by (auto simp: GaussianDiffusion_init_def Let_def split: if_splits)
  show "loss_type gd = lt" by (subst gd) simp
  show "num_timesteps gd = int (length rs)" by (subst gd) simp
  show "betas gd = map Fin rs" by (subst gd) simp
  show "alphas_cumprod gd = map (\<lambda>k. Fin (abar rs (Suc k))) [0..<length rs]"
    by (subst gd) (simp only: GaussianDiffusion.simps cumprod_alphas)
  show "alphas_cumprod_prev gd = map (\<lambda>k. Fin (abar rs k)) [0..<length rs]"
    by (subst gd) (simp only: GaussianDiffusion.simps prev)
  show "sqrt_alphas_cumprod gd = map fsqrt (alphas_cumprod gd)"
    using assms by (auto simp: GaussianDiffusion_init_def Let_def split: if_splits)
  show "sqrt_one_minus_alphas_cumprod gd = map (\<lambda>a. fsqrt (fsub (Fin 1) a)) (alphas_cumprod gd)"
    using assms by (auto simp: GaussianDiffusion_init_def Let_def split: if_splits)
  show "sqrt_recip_alphas_cumprod gd = map (\<lambda>a. fsqrt (fdiv (Fin 1) a)) (alphas_cumprod gd)"
    using assms by (auto simp: GaussianDiffusion_init_def Let_def split: if_splits)
  show "sqrt_recipm1_alphas_cumprod gd =
           map (\<lambda>a. fsqrt (fsub (fdiv (Fin 1) a) (Fin 1))) (alphas_cumprod gd)"
    using assms by (auto simp: GaussianDiffusion_init_def Let_def split: if_splits)
  show "posterior_variance gd =
           map2 fdiv (map2 fmul (betas gd) (map (\<lambda>a. fsub (Fin 1) a) (alphas_cumprod_prev gd)))
                     (map (\<lambda>a. fsub (Fin 1) a) (alphas_cumprod gd))"
    using assms by (auto simp: GaussianDiffusion_init_def Let_def split: if_splits)
  show "posterior_log_variance_clipped gd =
           map (\<lambda>v. flog (fmaximum v (Fin (1 / 10 ^ 20)))) (posterior_variance gd)"
    using assms by (auto simp: GaussianDiffusion_init_def Let_def split: if_splits)
qed


lemma abar_0: "abar rs 0 = 1"
  by (simp add: abar_def)

lemma abar_Suc: "t < length rs \<Longrightarrow> abar rs (Suc t) = abar rs t * (1 - rs ! t)"
  by (simp add: abar_def take_Suc_conv_app_nth)

lemma prod_list_nonneg_real: "(\<And>x. x \<in> set xs \<Longrightarrow> 0 \<le> (x::real)) \<Longrightarrow> 0 \<le> prod_list xs"
  by (induction xs) auto


lemma abar_nonneg:
  assumes "\<forall>r\<in>set rs. 0 < r \<and> r \<le> 1"
  shows "0 \<le> abar rs k"
  unfolding abar_def
  by (rule prod_list_nonneg_real) (use assms in \<open>auto dest: in_set_takeD\<close>)

lemma abar_le_1:
  assumes "\<forall>r\<in>set rs. 0 < r \<and> r \<le> 1"
  shows "abar rs k \<le> 1"
proof (induction k)
  case 0 show ?case by (simp add: abar_0)
next
  case (Suc k)
  show ?case
  proof (cases "k < length rs")
    case True
    then have r: "0 < rs ! k" "rs ! k \<le> 1" using assms by auto
    have "abar rs k * (1 - rs ! k) \<le> 1 * 1"
      by (rule mult_mono) (use Suc r abar_nonneg[OF assms] in auto)
    then show ?thesis using True by (simp add: abar_Suc)
  next
    case False
    then have "abar rs (Suc k) = abar rs k" by (simp add: abar_def)
    then show ?thesis using Suc by simp
  qed
qed

lemma abar_Suc_less_1:
  assumes "\<forall>r\<in>set rs. 0 < r \<and> r \<le> 1" "t < length rs"
  shows "abar rs (Suc t) < 1"
proof -
  have r: "0 < rs ! t" "rs ! t \<le> 1" using assms by auto
  have "abar rs t * (1 - rs ! t) \<le> 1 * (1 - rs ! t)"
    by (rule mult_right_mono) (use r abar_le_1[OF assms(1)] in auto)
  then show ?thesis using r assms(2) by (simp add: abar_Suc)
qed






lemma init_Inr_valid:
  assumes "GaussianDiffusion_init bs lt = Inr gd"
  shows "bs \<noteq> []" and "list_all in_unit_interval bs"
  using assms init_fails[of bs lt] by auto

lemma init_Inr_reals:
  assumes "GaussianDiffusion_init bs lt = Inr gd"
  obtains rs where "bs = map Fin rs" and "\<forall>r\<in>set rs. 0 < r \<and> r \<le> 1"
  using list_all_Fin_ex[OF init_Inr_valid(2)[OF assms]] by blast

subsection \<open>Construction fails exactly on invalid betas\<close>



subsection \<open>The rounded arithmetic\<close>




























subsection \<open>The constructor in rounded arithmetic\<close>




subsection \<open>The cumulative products of the alphas\<close>




subsection \<open>The posterior variance is at most beta\<close>




section \<open>Properties of the forward process\<close>

lemma bcast2_same_length: "length xs = length ys \<Longrightarrow> bcast2 f xs ys = map2 f xs ys"
proof (cases xs)
  case Nil then show "length xs = length ys \<Longrightarrow> ?thesis" by simp
next
  case (Cons x xs')
  assume len: "length xs = length ys"
  then obtain y ys' where ys: "ys = y # ys'" using Cons by (cases ys) auto
  show ?thesis
  proof (cases xs')
    case Nil
    then have "ys' = []" using len Cons ys by simp
    then show ?thesis using Cons Nil ys by simp
  next
    case (Cons x2 xs2)
    then obtain y2 ys2 where "ys' = y2 # ys2" using len \<open>xs = x # xs'\<close> ys by (cases ys') auto
    then show ?thesis using \<open>xs = x # xs'\<close> Cons ys by simp
  qed
qed

lemma map2_bdim_ones: "map2 bdim (replicate (length rest) (Suc 0)) rest = rest"
  by (induction rest) (auto simp: bdim_def)

lemma bdim_same: "bdim b b = b"
  by (simp add: bdim_def)

lemma map2_bdim_same: "map2 bdim s s = s"
  by (induction s) (auto simp: bdim_def)

lemma extract_coef_ok:
  assumes "x_shape = b # rest" "length t = b" "\<forall>i\<in>set t. 0 \<le> i \<and> i < int (length a)"
  shows "extract_coef a t x_shape
           = Inr \<lparr> shape = b # replicate (length rest) 1, rows = map (\<lambda>i. [a ! nat i]) t \<rparr>"
  using assms by (auto simp: extract_coef_def Let_def list_all_iff)

lemma tbin_coef:
  assumes "shape x = b # rest"
  shows "tbin f \<lparr> shape = b # replicate (length rest) (Suc 0), rows = map (\<lambda>i. [a ! nat i]) t \<rparr> x
           = \<lparr> shape = shape x, rows = map2 (\<lambda>i xr. map (f (a ! nat i)) xr) t (rows x) \<rparr>"
  using assms by (auto simp: tbin_def bdim_same map2_bdim_ones zip_map1)






lemma lincomb_eval:
  assumes "shape x = b # rest" "shape y = shape x"
  shows "tbin h (tbin fmul \<lparr> shape = b # replicate (length rest) (Suc 0), rows = map (\<lambda>i. [a1 ! nat i]) t \<rparr> x)
                (tbin fmul \<lparr> shape = b # replicate (length rest) (Suc 0), rows = map (\<lambda>i. [a2 ! nat i]) t \<rparr> y)
         = \<lparr> shape = shape x,
             rows = map2 (bcast2 h) (map2 (\<lambda>i xr. map (fmul (a1 ! nat i)) xr) t (rows x))
                                    (map2 (\<lambda>i yr. map (fmul (a2 ! nat i)) yr) t (rows y)) \<rparr>"
proof -
  have sy: "shape y = b # rest" using assms by simp
  show ?thesis
    unfolding tbin_coef[OF assms(1)] tbin_coef[OF sy]
    by (simp add: tbin_def assms(2) map2_bdim_same)
qed

lemma q_sample_eval:
  assumes "shape x = b # rest" "shape noise = shape x" "length t = b"
      and "\<forall>i\<in>set t. 0 \<le> i \<and> i < int (length (sqrt_alphas_cumprod gd))"
      and "\<forall>i\<in>set t. 0 \<le> i \<and> i < int (length (sqrt_one_minus_alphas_cumprod gd))"
  shows "q_sample gd rn x t (Some noise) g
         = Inr (\<lparr> shape = shape x,
                   rows = map2 (bcast2 fadd)
                            (map2 (\<lambda>i xr. map (fmul (sqrt_alphas_cumprod gd ! nat i)) xr) t (rows x))
                            (map2 (\<lambda>i nr. map (fmul (sqrt_one_minus_alphas_cumprod gd ! nat i)) nr) t (rows noise)) \<rparr>, g)"
  unfolding q_sample_def
  by (simp add: assms(2) extract_coef_ok[OF assms(1,3,4)] extract_coef_ok[OF assms(1,3,5)]
                lincomb_eval[OF assms(1,2)])

lemma predict_eval:
  assumes "shape x = b # rest" "shape noise = shape x" "length t = b"
      and "\<forall>i\<in>set t. 0 \<le> i \<and> i < int (length (sqrt_recip_alphas_cumprod gd))"
      and "\<forall>i\<in>set t. 0 \<le> i \<and> i < int (length (sqrt_recipm1_alphas_cumprod gd))"
  shows "predict_start_from_noise gd x t noise
         = Inr \<lparr> shape = shape x,
                  rows = map2 (bcast2 fsub)
                            (map2 (\<lambda>i xr. map (fmul (sqrt_recip_alphas_cumprod gd ! nat i)) xr) t (rows x))
                            (map2 (\<lambda>i nr. map (fmul (sqrt_recipm1_alphas_cumprod gd ! nat i)) nr) t (rows noise)) \<rparr>"
  unfolding predict_start_from_noise_def
  by (simp add: assms(2) extract_coef_ok[OF assms(1,3,4)] extract_coef_ok[OF assms(1,3,5)]
                lincomb_eval[OF assms(1,2)])


lemma wf_tensorD:
  assumes "wf_tensor x"
  obtains b rest where "shape x = b # rest" "length (rows x) = b"
    "\<And>k. k < b \<Longrightarrow> length (rows x ! k) = prod_list rest"
proof -
  from assms obtain b rest where s: "shape x = b # rest"
    by (cases "shape x") (auto simp: wf_tensor_def)
  with assms have l: "length (rows x) = b" and a: "list_all (\<lambda>r. length r = prod_list rest) (rows x)"
    by (auto simp: wf_tensor_def)
  have "\<And>k. k < b \<Longrightarrow> length (rows x ! k) = prod_list rest"
    using a l by (simp add: list_all_length)
  then show ?thesis using that s l by blast
qed

lemma init_table_lengths:
  assumes "GaussianDiffusion_init (map Fin rs) lt = Inr gd"
  shows "length (alphas_cumprod gd) = length rs"
    and "length (alphas_cumprod_prev gd) = length rs"
    and "length (sqrt_alphas_cumprod gd) = length rs"
    and "length (sqrt_one_minus_alphas_cumprod gd) = length rs"
    and "length (sqrt_recip_alphas_cumprod gd) = length rs"
    and "length (sqrt_recipm1_alphas_cumprod gd) = length rs"
    and "length (posterior_variance gd) = length rs"
    and "length (posterior_log_variance_clipped gd) = length rs"
  using init_tables[OF assms] by simp_all

subsection \<open>Predicting the start from the noise inverts the forward sample\<close>






section \<open>Properties of the training loss\<close>

lemma wf_tensorI:
  assumes "shape x = b # rest" "length (rows x) = b"
    "\<And>k. k < b \<Longrightarrow> length (rows x ! k) = prod_list rest"
  shows "wf_tensor x"
  using assms by (simp add: wf_tensor_def list_all_length)

lemma q_sample_wf:
  assumes init: "GaussianDiffusion_init bs lt = Inr gd"
      and wfx: "wf_tensor x_start" and wfn: "wf_tensor noise"
      and sh: "shape noise = shape x_start"
      and lt: "length t = hd (shape x_start)"
      and rng: "\<forall>i\<in>set t. 0 \<le> i \<and> i < num_timesteps gd"
  shows "\<exists>x_t. q_sample gd random_normal x_start t (Some noise) g = Inr (x_t, g)
               \<and> wf_tensor x_t \<and> shape x_t = shape x_start"
proof -
  obtain rs where rs: "bs = map Fin rs" "\<forall>r\<in>set rs. 0 < r \<and> r \<le> 1"
    using init_Inr_reals[OF init] .
  note init' = init[unfolded rs(1)]
  note tab = init_tables[OF init']
  note len = init_table_lengths[OF init']
  obtain b rest where x: "shape x_start = b # rest" "length (rows x_start) = b"
      "\<And>k. k < b \<Longrightarrow> length (rows x_start ! k) = prod_list rest"
    using wf_tensorD[OF wfx] by metis
  obtain b' rest' where n0: "shape noise = b' # rest'" "length (rows noise) = b'"
      "\<And>k. k < b' \<Longrightarrow> length (rows noise ! k) = prod_list rest'"
    using wf_tensorD[OF wfn] by metis
  have bb: "b' = b" "rest' = rest" using n0(1) x(1) sh by simp_all
  note n = n0[unfolded bb]
  have tl: "length t = b" using lt x(1) by simp
  have r: "\<forall>i\<in>set t. 0 \<le> i \<and> i < int (length rs)" using rng tab(3) by simp
  define x_t where "x_t = \<lparr> shape = shape x_start,
       rows = map2 (bcast2 fadd)
                (map2 (\<lambda>i xr. map (fmul (sqrt_alphas_cumprod gd ! nat i)) xr) t (rows x_start))
                (map2 (\<lambda>i nr. map (fmul (sqrt_one_minus_alphas_cumprod gd ! nat i)) nr) t (rows noise)) \<rparr>"
  have q: "q_sample gd random_normal x_start t (Some noise) g = Inr (x_t, g)"
    unfolding x_t_def
    by (rule q_sample_eval[OF x(1) sh tl]) (use r len in simp_all)
  have "wf_tensor x_t"
  proof (rule wf_tensorI)
    show "shape x_t = b # rest" by (simp add: x_t_def x(1))
    show "length (rows x_t) = b" by (simp add: x_t_def tl x(2) n(2))
    fix k assume k: "k < b"
    have "length (rows x_start ! k) = length (rows noise ! k)" using x(3)[OF k] n(3)[OF k] by simp
    then show "length (rows x_t ! k) = prod_list rest"
      using k x(3)[OF k] by (simp add: x_t_def tl x(2) n(2) bcast2_same_length)
  qed
  then show ?thesis using q by (auto simp: x_t_def)
qed

lemma p_losses_None:
  "p_losses gd rn dn x_start t None g
     = (case rn (shape x_start) g of (n, g1) \<Rightarrow> p_losses gd rn dn x_start t (Some n) g1)"
  by (simp add: p_losses_def Let_def split: prod.splits)

text \<open>
  C7. For the loss kind \<open>noisepred\<close>, a sample \<open>x_start\<close> of shape \<open>[B, H, W, C]\<close>, a
  timestep batch \<open>t\<close> of length \<open>B\<close> with indices in \<open>[0, T-1]\<close>, a noise tensor of the
  shape of \<open>x_start\<close> and a denoising function that preserves shapes: \<open>p_losses\<close>
  computes \<open>x_noisy = q_sample(x_start, t, noise)\<close> and returns the vector of length
  \<open>B\<close> whose \<open>i\<close>-th entry is the sum over the \<open>H * W * C\<close> entries of batch element
  \<open>i\<close> of the squared difference between \<open>noise\<close> and \<open>denoise_fn(x_noisy, t)\<close>, divided
  by \<open>H * W * C\<close>. When no noise is supplied, it is drawn from the random source at the
  shape of \<open>x_start\<close> and the computation is the same with that draw.
\<close>

theorem p_losses_noisepred:
  assumes init: "GaussianDiffusion_init bs ''noisepred'' = Inr gd"
      and wfx: "wf_tensor x_start" and shx: "shape x_start = [B, H, W, C]"
      and lt: "length t = B"
      and rng: "\<forall>i\<in>set t. 0 \<le> i \<and> i < num_timesteps gd"
      and wfn: "wf_tensor noise" and sh: "shape noise = shape x_start"
      and dn: "\<forall>x. wf_tensor x \<longrightarrow> wf_tensor (denoise_fn x t) \<and> shape (denoise_fn x t) = shape x"
  shows "(\<exists>x_noisy.
           q_sample gd random_normal x_start t (Some noise) g = Inr (x_noisy, g) \<and>
           p_losses gd random_normal denoise_fn x_start t (Some noise) g
             = Inr (map (\<lambda>i. fdiv (fsum (map2 squared_difference
                                             (rows noise ! i) (rows (denoise_fn x_noisy t) ! i)))
                                   (Fin (real (H * W * C))))
                        [0..<B], g)) \<and>
         p_losses gd random_normal denoise_fn x_start t None g
           = (case random_normal (shape x_start) g of
                (n, g1) \<Rightarrow> p_losses gd random_normal denoise_fn x_start t (Some n) g1)"
proof -
  have lt': "length t = hd (shape x_start)" using lt shx by simp
  obtain x_noisy where q: "q_sample gd random_normal x_start t (Some noise) g = Inr (x_noisy, g)"
      and wfq: "wf_tensor x_noisy" and shq: "shape x_noisy = shape x_start"
    using q_sample_wf[OF init wfx wfn sh lt' rng, of random_normal g] by auto
  define x_recon where "x_recon = denoise_fn x_noisy t"
  have wfr: "wf_tensor x_recon" and shr: "shape x_recon = [B, H, W, C]"
    using dn[rule_format, OF wfq] shq shx by (simp_all add: x_recon_def)
  have lty: "loss_type gd = ''noisepred''"
  proof -
    obtain rs where "bs = map Fin rs" using init_Inr_reals[OF init] by blast
    then show ?thesis using init_tables(2)[of rs "''noisepred''" gd] init by simp
  qed
  have nrows: "length (rows noise) = B" "\<And>k. k < B \<Longrightarrow> length (rows noise ! k) = H * W * C"
    using wfn sh shx by (auto simp: wf_tensor_def list_all_length)
  have rrows: "length (rows x_recon) = B" "\<And>k. k < B \<Longrightarrow> length (rows x_recon ! k) = H * W * C"
    using wfr shr by (auto simp: wf_tensor_def list_all_length)
  have mf: "meanflat (tbin squared_difference noise x_recon)
              = map (\<lambda>i. fdiv (fsum (map2 squared_difference (rows noise ! i) (rows x_recon ! i)))
                              (Fin (real (H * W * C)))) [0..<B]" (is "?L = ?R")
  proof (rule nth_equalityI)
    show "length ?L = length ?R" by (simp add: meanflat_def tbin_def nrows rrows)
  next
    fix k assume "k < length ?L"
    then have k: "k < B" by (simp add: meanflat_def tbin_def nrows rrows)
    have e: "length (rows noise ! k) = length (rows x_recon ! k)"
      using nrows(2)[OF k] rrows(2)[OF k] by simp
    show "?L ! k = ?R ! k"
      using k nrows(2)[OF k] e
      by (simp add: meanflat_def tbin_def nrows(1) rrows(1) bcast2_same_length)
  qed
  have "p_losses gd random_normal denoise_fn x_start t (Some noise) g = Inr (?R, g)"
    unfolding p_losses_def
    by (simp add: shx lt sh q shq x_recon_def[symmetric] shr lty mf Let_def)
  then have "\<exists>x_noisy.
           q_sample gd random_normal x_start t (Some noise) g = Inr (x_noisy, g) \<and>
           p_losses gd random_normal denoise_fn x_start t (Some noise) g
             = Inr (map (\<lambda>i. fdiv (fsum (map2 squared_difference
                                             (rows noise ! i) (rows (denoise_fn x_noisy t) ! i)))
                                   (Fin (real (H * W * C))))
                        [0..<B], g)"
    using q unfolding x_recon_def by blast
  then show ?thesis using p_losses_None[of gd random_normal denoise_fn x_start t g] by simp
qed


theorem p_losses_noisepred_witness:
  "\<exists>gd. GaussianDiffusion_init [Fin (3/4)] ''noisepred'' = Inr gd \<and>
     (\<exists>x_noisy.
        q_sample gd (\<lambda>s g. (\<lparr> shape = s, rows = [] \<rparr>, g))
          \<lparr> shape = [1, 1, 1, 1], rows = [[Fin 1]] \<rparr> [0]
          (Some \<lparr> shape = [1, 1, 1, 1], rows = [[Fin 2]] \<rparr>) () = Inr (x_noisy, ()) \<and>
        p_losses gd (\<lambda>s g. (\<lparr> shape = s, rows = [] \<rparr>, g)) (\<lambda>x t. x)
          \<lparr> shape = [1, 1, 1, 1], rows = [[Fin 1]] \<rparr> [0]
          (Some \<lparr> shape = [1, 1, 1, 1], rows = [[Fin 2]] \<rparr>) ()
          = Inr ([fdiv (fsum (map2 squared_difference [Fin 2] (rows x_noisy ! 0))) (Fin 1)], ()))"
proof -
  obtain gd where gd: "GaussianDiffusion_init [Fin (3/4)] ''noisepred'' = Inr gd"
    using init_succeeds[of "[Fin (3/4)]" "''noisepred''"]
    by (auto simp: in_unit_interval_def)
  have gd': "GaussianDiffusion_init (map Fin [3/4]) ''noisepred'' = Inr gd" using gd by simp
  have nt: "num_timesteps gd = 1" using init_tables(3)[OF gd'] by simp
  have h1: "wf_tensor \<lparr> shape = [1, 1, 1, 1], rows = [[Fin 1]] \<rparr>" by (simp add: wf_tensor_def)
  have h2: "wf_tensor \<lparr> shape = [1, 1, 1, 1], rows = [[Fin 2]] \<rparr>" by (simp add: wf_tensor_def)
  have h3: "shape \<lparr> shape = [1, 1, 1, 1], rows = [[Fin 1]] \<rparr> = [1, 1, 1, 1]" by simp
  have h4: "length [0::int] = 1" by simp
  have h5: "\<forall>i\<in>set [0::int]. 0 \<le> i \<and> i < num_timesteps gd" by (simp add: nt)
  have h6: "shape \<lparr> shape = [1, 1, 1, 1], rows = [[Fin 2]] \<rparr>
              = shape \<lparr> shape = [1, 1, 1, 1], rows = [[Fin 1]] \<rparr>" by simp
  have h7: "\<forall>x. wf_tensor x \<longrightarrow> wf_tensor ((\<lambda>x t. x) x [0::int])
                 \<and> shape ((\<lambda>x t. x) x [0::int]) = shape x" by simp
  show ?thesis
    using p_losses_noisepred[OF gd h1 h3 h4 h5 h2 h6 h7,
            of "\<lambda>s g. (\<lparr> shape = s, rows = [] \<rparr>, g)" "()"] gd
    by simp
qed

section \<open>Properties of the reverse process\<close>

text \<open>The loops are unfolded one step at a time in the proofs.\<close>

declare p_sample_while.simps [simp del]
declare repeat_noise_while.simps [simp del]
declare independent_noise_while.simps [simp del]

lemma init_coef_lengths:
  assumes "GaussianDiffusion_init (map Fin rs) lt = Inr gd"
  shows "length (posterior_mean_coef1 gd) = length rs"
    and "length (posterior_mean_coef2 gd) = length rs"
proof -
  have ne: "rs \<noteq> []" using init_tables(1)[OF assms] .
  have l: "length (cumprod (map (\<lambda>b. fsub (Fin 1) b) (map Fin rs))) = length rs"
    by (simp add: length_cumprod)
  show "length (posterior_mean_coef1 gd) = length rs"
    using assms ne l by (auto simp: GaussianDiffusion_init_def Let_def split: if_splits)
  show "length (posterior_mean_coef2 gd) = length rs"
    using assms ne l by (auto simp: GaussianDiffusion_init_def Let_def split: if_splits)
qed

lemma lincomb_wf:
  assumes x: "shape x = b # rest" "length (rows x) = b"
             "\<And>k. k < b \<Longrightarrow> length (rows x ! k) = prod_list rest"
      and y: "length (rows y) = b" "\<And>k. k < b \<Longrightarrow> length (rows y ! k) = prod_list rest"
      and tl: "length t = b"
  shows "wf_tensor \<lparr> shape = shape x,
             rows = map2 (bcast2 h) (map2 (\<lambda>i xr. map (fmul (a1 ! nat i)) xr) t (rows x))
                                    (map2 (\<lambda>i yr. map (fmul (a2 ! nat i)) yr) t (rows y)) \<rparr>"
proof (rule wf_tensorI)
  show "shape \<lparr> shape = shape x,
             rows = map2 (bcast2 h) (map2 (\<lambda>i xr. map (fmul (a1 ! nat i)) xr) t (rows x))
                                    (map2 (\<lambda>i yr. map (fmul (a2 ! nat i)) yr) t (rows y)) \<rparr> = b # rest"
    by (simp add: x(1))
  show "length (rows \<lparr> shape = shape x,
             rows = map2 (bcast2 h) (map2 (\<lambda>i xr. map (fmul (a1 ! nat i)) xr) t (rows x))
                                    (map2 (\<lambda>i yr. map (fmul (a2 ! nat i)) yr) t (rows y)) \<rparr>) = b"
    by (simp add: tl x(2) y(1))
  fix k assume k: "k < b"
  have "length (rows x ! k) = length (rows y ! k)" using x(3)[OF k] y(2)[OF k] by simp
  then show "length (rows \<lparr> shape = shape x,
             rows = map2 (bcast2 h) (map2 (\<lambda>i xr. map (fmul (a1 ! nat i)) xr) t (rows x))
                                    (map2 (\<lambda>i yr. map (fmul (a2 ! nat i)) yr) t (rows y)) \<rparr> ! k)
               = prod_list rest"
    using k x(3)[OF k] by (simp add: tl x(2) y(1) bcast2_same_length)
qed

lemma q_posterior_eval:
  assumes "shape x_t = b # rest" "shape x_start = shape x_t" "length t = b"
      and "\<forall>i\<in>set t. 0 \<le> i \<and> i < int (length (posterior_mean_coef1 gd))"
      and "\<forall>i\<in>set t. 0 \<le> i \<and> i < int (length (posterior_mean_coef2 gd))"
      and "\<forall>i\<in>set t. 0 \<le> i \<and> i < int (length (posterior_variance gd))"
      and "\<forall>i\<in>set t. 0 \<le> i \<and> i < int (length (posterior_log_variance_clipped gd))"
  shows "q_posterior gd x_start x_t t
         = Inr (\<lparr> shape = shape x_t,
                   rows = map2 (bcast2 fadd)
                            (map2 (\<lambda>i xr. map (fmul (posterior_mean_coef1 gd ! nat i)) xr) t (rows x_start))
                            (map2 (\<lambda>i xr. map (fmul (posterior_mean_coef2 gd ! nat i)) xr) t (rows x_t)) \<rparr>,
                \<lparr> shape = b # replicate (length rest) 1,
                   rows = map (\<lambda>i. [posterior_variance gd ! nat i]) t \<rparr>,
                \<lparr> shape = b # replicate (length rest) 1,
                   rows = map (\<lambda>i. [posterior_log_variance_clipped gd ! nat i]) t \<rparr>)"
proof -
  have s: "shape x_start = b # rest" using assms(1,2) by simp
  have sy: "shape x_t = shape x_start" using assms(2) by simp
  have t1: "take (Suc 0) (shape x_start) = [b]" "take (Suc 0) (shape x_t) = [b]"
    using s assms(1) by simp_all
  note e = extract_coef_ok[OF assms(1,3,4)] extract_coef_ok[OF assms(1,3,5)]
           extract_coef_ok[OF assms(1,3,6)] extract_coef_ok[OF assms(1,3,7)]
  show ?thesis
    unfolding q_posterior_def e
    by (simp add: assms(2) lincomb_eval[OF s sy] Let_def t1)
qed


lemma tmap_shape: "shape (tmap f x) = shape x"
  by (simp add: tmap_def)

lemma tmap_wf: "wf_tensor x \<Longrightarrow> wf_tensor (tmap f x)"
  by (auto simp: wf_tensor_def tmap_def list_all_iff split: list.splits)

lemma init_loss_type:
  assumes "GaussianDiffusion_init bs lt = Inr gd"
  shows "loss_type gd = lt"
proof -
  obtain rs where "bs = map Fin rs" using init_Inr_reals[OF assms] by blast
  then show ?thesis using init_tables(2)[of rs lt gd] assms by simp
qed

lemma init_in_range:
  assumes init: "GaussianDiffusion_init bs lt = Inr gd"
      and rng: "\<forall>i\<in>set t. 0 \<le> i \<and> i < num_timesteps gd"
  shows "\<forall>i\<in>set t. 0 \<le> i \<and> i < int (length (sqrt_alphas_cumprod gd))"
    and "\<forall>i\<in>set t. 0 \<le> i \<and> i < int (length (sqrt_one_minus_alphas_cumprod gd))"
    and "\<forall>i\<in>set t. 0 \<le> i \<and> i < int (length (sqrt_recip_alphas_cumprod gd))"
    and "\<forall>i\<in>set t. 0 \<le> i \<and> i < int (length (sqrt_recipm1_alphas_cumprod gd))"
    and "\<forall>i\<in>set t. 0 \<le> i \<and> i < int (length (posterior_mean_coef1 gd))"
    and "\<forall>i\<in>set t. 0 \<le> i \<and> i < int (length (posterior_mean_coef2 gd))"
    and "\<forall>i\<in>set t. 0 \<le> i \<and> i < int (length (posterior_variance gd))"
    and "\<forall>i\<in>set t. 0 \<le> i \<and> i < int (length (posterior_log_variance_clipped gd))"
proof -
  obtain rs where rs: "bs = map Fin rs" using init_Inr_reals[OF init] by blast
  note init' = init[unfolded rs]
  have r: "\<forall>i\<in>set t. 0 \<le> i \<and> i < int (length rs)"
    using rng init_tables(3)[OF init'] by simp
  note len = init_table_lengths[OF init'] init_coef_lengths[OF init']
  show "\<forall>i\<in>set t. 0 \<le> i \<and> i < int (length (sqrt_alphas_cumprod gd))" using r len by simp
  show "\<forall>i\<in>set t. 0 \<le> i \<and> i < int (length (sqrt_one_minus_alphas_cumprod gd))" using r len by simp
  show "\<forall>i\<in>set t. 0 \<le> i \<and> i < int (length (sqrt_recip_alphas_cumprod gd))" using r len by simp
  show "\<forall>i\<in>set t. 0 \<le> i \<and> i < int (length (sqrt_recipm1_alphas_cumprod gd))" using r len by simp
  show "\<forall>i\<in>set t. 0 \<le> i \<and> i < int (length (posterior_mean_coef1 gd))" using r len by simp
  show "\<forall>i\<in>set t. 0 \<le> i \<and> i < int (length (posterior_mean_coef2 gd))" using r len by simp
  show "\<forall>i\<in>set t. 0 \<le> i \<and> i < int (length (posterior_variance gd))" using r len by simp
  show "\<forall>i\<in>set t. 0 \<le> i \<and> i < int (length (posterior_log_variance_clipped gd))" using r len by simp
qed

lemma p_mean_variance_ok:
  assumes init: "GaussianDiffusion_init bs ''noisepred'' = Inr gd"
      and shx: "shape x = [B, H, W, C]" and lt: "length t = B"
      and rng: "\<forall>i\<in>set t. 0 \<le> i \<and> i < num_timesteps gd"
      and shd: "shape (dn x t) = shape x"
  shows "\<exists>mean var logvar. p_mean_variance gd dn x t clip = Inr (mean, var, logvar)
           \<and> shape mean = shape x
           \<and> rows logvar = map (\<lambda>i. [posterior_log_variance_clipped gd ! nat i]) t
           \<and> shape logvar = [B, 1, 1, 1]
           \<and> (wf_tensor x \<longrightarrow> wf_tensor (dn x t) \<longrightarrow> wf_tensor mean)"
proof -
  note ir = init_in_range[OF init rng]
  have sx: "shape x = B # [H, W, C]" using shx by simp
  define x0 where "x0 = \<lparr> shape = shape x,
       rows = map2 (bcast2 fsub)
                (map2 (\<lambda>i xr. map (fmul (sqrt_recip_alphas_cumprod gd ! nat i)) xr) t (rows x))
                (map2 (\<lambda>i nr. map (fmul (sqrt_recipm1_alphas_cumprod gd ! nat i)) nr) t (rows (dn x t))) \<rparr>"
  have p: "predict_start_from_noise gd x t (dn x t) = Inr x0"
    unfolding x0_def by (rule predict_eval[OF sx shd lt ir(3,4)])
  define xr where "xr = (if clip then clip_by_value x0 (Fin (- 1)) (Fin 1) else x0)"
  have sxr: "shape xr = shape x" by (simp add: xr_def clip_by_value_def tmap_shape x0_def)
  define mean where "mean = \<lparr> shape = shape x,
       rows = map2 (bcast2 fadd)
                (map2 (\<lambda>i r. map (fmul (posterior_mean_coef1 gd ! nat i)) r) t (rows xr))
                (map2 (\<lambda>i r. map (fmul (posterior_mean_coef2 gd ! nat i)) r) t (rows x)) \<rparr>"
  define var where "var = \<lparr> shape = B # replicate (length [H, W, C]) 1,
                            rows = map (\<lambda>i. [posterior_variance gd ! nat i]) t \<rparr>"
  define logvar where "logvar = \<lparr> shape = B # replicate (length [H, W, C]) 1,
                            rows = map (\<lambda>i. [posterior_log_variance_clipped gd ! nat i]) t \<rparr>"
  have q: "q_posterior gd xr x t = Inr (mean, var, logvar)"
    unfolding mean_def var_def logvar_def
    by (rule q_posterior_eval[OF sx sxr lt ir(5,6,7,8)])
  have lty: "loss_type gd = ''noisepred''" by (rule init_loss_type[OF init])
  have pmv: "p_mean_variance gd dn x t clip = Inr (mean, var, logvar)"
    unfolding p_mean_variance_def
    by (simp add: lty p xr_def[symmetric] q Let_def sxr)
       (simp add: mean_def var_def logvar_def shx)
  have wf: "wf_tensor mean" if wfx: "wf_tensor x" and wfd: "wf_tensor (dn x t)"
  proof -
    have xl: "length (rows x) = B" "\<And>k. k < B \<Longrightarrow> length (rows x ! k) = prod_list [H, W, C]"
      using wfx shx by (simp_all add: wf_tensor_def list_all_length)
    have dl: "length (rows (dn x t)) = B"
             "\<And>k. k < B \<Longrightarrow> length (rows (dn x t) ! k) = prod_list [H, W, C]"
      using wfd shd shx by (simp_all add: wf_tensor_def list_all_length)
    have "wf_tensor x0" unfolding x0_def by (rule lincomb_wf[OF sx xl dl lt])
    then have wxr: "wf_tensor xr" by (simp add: xr_def clip_by_value_def tmap_wf)
    have sxr': "shape xr = B # [H, W, C]" using sxr sx by simp
    have rl: "length (rows xr) = B" "\<And>k. k < B \<Longrightarrow> length (rows xr ! k) = prod_list [H, W, C]"
      using wxr sxr' by (simp_all add: wf_tensor_def list_all_length)
    have "wf_tensor \<lparr> shape = shape xr,
       rows = map2 (bcast2 fadd)
                (map2 (\<lambda>i r. map (fmul (posterior_mean_coef1 gd ! nat i)) r) t (rows xr))
                (map2 (\<lambda>i r. map (fmul (posterior_mean_coef2 gd ! nat i)) r) t (rows x)) \<rparr>"
      by (rule lincomb_wf[OF sxr' rl xl lt])
    then show ?thesis by (simp add: mean_def sxr)
  qed
  show ?thesis using pmv wf by (auto simp: mean_def logvar_def)
qed


lemma fadd_zero_right: "fadd v (Fin 0) = v"
  by (cases v) simp_all

lemma map2_fadd_zeros:
  assumes "length mr = length nr" "list_all is_fin nr"
  shows "map2 fadd mr (map (fmul (Fin 0)) nr) = mr"
  using assms
proof (induction mr nr rule: list_induct2)
  case Nil then show ?case by simp
next
  case (Cons m ms n ns)
  then obtain n' where "n = Fin n'" by (cases n) auto
  then show ?case using Cons by (simp add: fadd_zero_right)
qed

lemma posterior_log_variance_at_0:
  assumes "GaussianDiffusion_init bs lt = Inr gd"
  shows "posterior_log_variance_clipped gd ! 0 = Fin (ln (1 / 10 ^ 20))"
proof -
  obtain rs where rs: "bs = map Fin rs" "\<forall>r\<in>set rs. 0 < r \<and> r \<le> 1"
    using init_Inr_reals[OF assms] .
  note init' = assms[unfolded rs(1)]
  note tab = init_tables[OF init']
  have l: "0 < length rs" using tab(1) by simp
  have d: "abar rs (Suc 0) < 1" by (rule abar_Suc_less_1[OF rs(2) l])
  have pv: "posterior_variance gd ! 0 = Fin 0"
    using l d by (simp add: tab(4,5,6,11) fsub_def abar_0)
  have lp: "0 < length (posterior_variance gd)" using l init_table_lengths(7)[OF init'] by simp
  have "posterior_log_variance_clipped gd ! 0
          = flog (fmaximum (posterior_variance gd ! 0) (Fin (1 / 10 ^ 20)))"
    unfolding tab(12) using lp by (rule nth_map)
  then show ?thesis by (simp add: pv)
qed

lemma nonzero_mask_ok:
  assumes "shape x = b # rest" "length t = b"
  shows "nonzero_mask x t = Inr \<lparr> shape = b # replicate (length rest) 1,
            rows = map (\<lambda>i. [if i = 0 then Fin 0 else Fin 1]) t \<rparr>"
  using assms by (simp add: nonzero_mask_def fsub_def)

subsection \<open>The last step adds no noise\<close>

text \<open>
  C6. When \<open>p_mean_variance\<close> succeeds (loss kind \<open>noisepred\<close>, \<open>x\<close> of shape
  \<open>[B, H, W, C]\<close>, \<open>t\<close> of length \<open>B\<close> with indices in \<open>[0, T-1]\<close>, a shape-preserving
  denoising function) and the drawn noise has the shape of \<open>x\<close> and finite entries,
  \<open>p_sample\<close> returns \<open>mean + mask * exp(0.5 * log_variance) * noise\<close>, where
  \<open>(mean, _, log_variance)\<close> is the result of \<open>p_mean_variance\<close> and \<open>mask\<close> is \<open>0\<close> for
  the batch elements with \<open>t = 0\<close> and \<open>1\<close> for the others. For every batch element with
  \<open>t = 0\<close> the returned row is the row of the posterior mean, whatever noise was drawn.
\<close>

theorem p_sample_masks_noise_at_t0:
  assumes init: "GaussianDiffusion_init bs ''noisepred'' = Inr gd"
      and shx: "shape x = [B, H, W, C]" and lt: "length t = B"
      and rng: "\<forall>i\<in>set t. 0 \<le> i \<and> i < num_timesteps gd"
      and wfx: "wf_tensor x"
      and shd: "shape (denoise_fn x t) = shape x" and wfd: "wf_tensor (denoise_fn x t)"
      and nl: "noise_like (shape x) noise_fn repeat_noise g = Inr (noise, g')"
      and shn: "shape noise = shape x" and wfn: "wf_tensor noise" and fn: "finite_tensor noise"
  shows "\<exists>mean var logvar msk.
           p_mean_variance gd denoise_fn x t clip_denoised = Inr (mean, var, logvar) \<and>
           nonzero_mask x t = Inr msk \<and>
           rows msk = map (\<lambda>i. [if i = 0 then Fin 0 else Fin 1]) t \<and>
           p_sample gd denoise_fn x t noise_fn clip_denoised repeat_noise g
             = Inr (tbin fadd mean
                      (tbin fmul (tbin fmul msk (tmap fexp (tmap (fmul (Fin 0.5)) logvar))) noise),
                    g') \<and>
           (\<forall>k<length t. t ! k = 0 \<longrightarrow>
              rows (tbin fadd mean
                      (tbin fmul (tbin fmul msk (tmap fexp (tmap (fmul (Fin 0.5)) logvar))) noise)) ! k
                = rows mean ! k)"
proof -
  obtain mean var logvar where
        pmv: "p_mean_variance gd denoise_fn x t clip_denoised = Inr (mean, var, logvar)"
    and shm: "shape mean = shape x"
    and rlv: "rows logvar = map (\<lambda>i. [posterior_log_variance_clipped gd ! nat i]) t"
    and wfm: "wf_tensor mean"
    using p_mean_variance_ok[where dn=denoise_fn and x=x and t=t and clip=clip_denoised,
            OF init shx lt rng shd] wfx wfd by auto
  have sx: "shape x = B # [H, W, C]" using shx by simp
  define msk where "msk = \<lparr> shape = B # replicate (length [H, W, C]) 1,
            rows = map (\<lambda>i. [if i = 0 then Fin 0 else Fin 1]) t \<rparr>"
  have nm: "nonzero_mask x t = Inr msk"
    unfolding msk_def by (rule nonzero_mask_ok[OF sx lt])
  define out where "out = tbin fadd mean
                      (tbin fmul (tbin fmul msk (tmap fexp (tmap (fmul (Fin 0.5)) logvar))) noise)"
  have ps: "p_sample gd denoise_fn x t noise_fn clip_denoised repeat_noise g = Inr (out, g')"
    unfolding p_sample_def by (simp add: pmv nl shn nm out_def)
  have ml: "length (rows mean) = B" "\<And>k. k < B \<Longrightarrow> length (rows mean ! k) = H * W * C"
    using wfm shm shx by (simp_all add: wf_tensor_def list_all_length)
  have nl': "length (rows noise) = B" "\<And>k. k < B \<Longrightarrow> length (rows noise ! k) = H * W * C"
    using wfn shn shx by (simp_all add: wf_tensor_def list_all_length)
  have rowk: "rows out ! k = rows mean ! k" if k: "k < length t" and t0: "t ! k = 0" for k
  proof -
    have kB: "k < B" using k lt by simp
    have fnk: "list_all is_fin (rows noise ! k)"
      using fn kB nl'(1) by (simp add: finite_tensor_def list_all_length)
    have e: "length (rows mean ! k) = length (rows noise ! k)"
      using ml(2)[OF kB] nl'(2)[OF kB] by simp
    have "rows out ! k
            = bcast2 fadd (rows mean ! k)
                (bcast2 fmul (bcast2 fmul [Fin 0]
                                 [fexp (fmul (Fin 0.5) (posterior_log_variance_clipped gd ! 0))])
                             (rows noise ! k))"
      using kB k t0 by (simp add: out_def tbin_def tmap_def msk_def rlv ml(1) nl'(1) lt)
    also have "\<dots> = bcast2 fadd (rows mean ! k) (map (fmul (Fin 0)) (rows noise ! k))"
      by (simp add: posterior_log_variance_at_0[OF init])
    also have "\<dots> = map2 fadd (rows mean ! k) (map (fmul (Fin 0)) (rows noise ! k))"
      using e by (simp add: bcast2_same_length)
    also have "\<dots> = rows mean ! k" by (rule map2_fadd_zeros[OF e fnk])
    finally show ?thesis .
  qed
  have "rows msk = map (\<lambda>i. [if i = 0 then Fin 0 else Fin 1]) t" by (simp add: msk_def)
  then show ?thesis using pmv nm ps rowk unfolding out_def by blast
qed


theorem p_sample_masks_noise_at_t0_witness:
  "\<exists>gd. GaussianDiffusion_init [Fin (3/4)] ''noisepred'' = Inr gd \<and>
     (\<exists>mean var logvar msk.
        p_mean_variance gd (\<lambda>x t. x) \<lparr> shape = [1, 1, 1, 1], rows = [[Fin 1]] \<rparr> [0] True
          = Inr (mean, var, logvar) \<and>
        rows msk = [[Fin 0]] \<and>
        p_sample gd (\<lambda>x t. x) \<lparr> shape = [1, 1, 1, 1], rows = [[Fin 1]] \<rparr> [0]
            (\<lambda>s g. (\<lparr> shape = s, rows = [[Fin 5]] \<rparr>, g)) True False ()
          = Inr (tbin fadd mean
                   (tbin fmul (tbin fmul msk (tmap fexp (tmap (fmul (Fin 0.5)) logvar)))
                      \<lparr> shape = [1, 1, 1, 1], rows = [[Fin 5]] \<rparr>), ()) \<and>
        rows (tbin fadd mean
                (tbin fmul (tbin fmul msk (tmap fexp (tmap (fmul (Fin 0.5)) logvar)))
                   \<lparr> shape = [1, 1, 1, 1], rows = [[Fin 5]] \<rparr>)) ! 0
          = rows mean ! 0)"
proof -
  obtain gd where gd: "GaussianDiffusion_init [Fin (3/4)] ''noisepred'' = Inr gd"
    using init_succeeds[of "[Fin (3/4)]" "''noisepred''"]
    by (auto simp: in_unit_interval_def)
  have gd': "GaussianDiffusion_init (map Fin [3/4]) ''noisepred'' = Inr gd" using gd by simp
  have nt: "num_timesteps gd = 1" using init_tables(3)[OF gd'] by simp
  let ?x = "\<lparr> shape = [1, 1, 1, 1], rows = [[Fin 1]] \<rparr>"
  let ?n = "\<lparr> shape = [1, 1, 1, 1], rows = [[Fin 5]] \<rparr>"
  let ?nf = "\<lambda>(s::nat list) (g::unit). (\<lparr> shape = s, rows = [[Fin 5]] \<rparr>, g)"
  have h1: "shape ?x = [1, 1, 1, 1]" by simp
  have h2: "length [0::int] = 1" by simp
  have h3: "\<forall>i\<in>set [0::int]. 0 \<le> i \<and> i < num_timesteps gd" by (simp add: nt)
  have h4: "wf_tensor ?x" by (simp add: wf_tensor_def)
  have h5: "shape ((\<lambda>x t. x) ?x [0::int]) = shape ?x" by simp
  have h6: "wf_tensor ((\<lambda>x t. x) ?x [0::int])" by (simp add: wf_tensor_def)
  have h7: "noise_like (shape ?x) ?nf False () = Inr (?n, ())" by (simp add: noise_like_def)
  have h8: "shape ?n = shape ?x" by simp
  have h9: "wf_tensor ?n" by (simp add: wf_tensor_def)
  have h10: "finite_tensor ?n" by (simp add: finite_tensor_def)
  show ?thesis
    using p_sample_masks_noise_at_t0[where denoise_fn="\<lambda>x t. x" and clip_denoised=True,
            OF gd h1 h2 h3 h4 h5 h6 h7 h8 h9 h10] gd
    by auto
qed

subsection \<open>An unsupported loss kind\<close>

lemma p_mean_variance_unsupported:
  "loss_type gd \<noteq> ''noisepred'' \<Longrightarrow>
     p_mean_variance gd dn x t clip = Inl (NotImplementedError (loss_type gd))"
  by (simp add: p_mean_variance_def)

lemma p_sample_unsupported:
  "loss_type gd \<noteq> ''noisepred'' \<Longrightarrow>
     p_sample gd dn x t nf clip rep g = Inl (NotImplementedError (loss_type gd))"
  by (simp add: p_sample_def p_mean_variance_unsupported)

lemma p_losses_unsupported_fails:
  "loss_type gd \<noteq> ''noisepred'' \<Longrightarrow> \<exists>e. p_losses gd rn dn x t nopt g = Inl e"
  by (auto simp: p_losses_def Let_def split: prod.splits sum.splits option.splits)

lemma p_losses_unsupported:
  assumes init: "GaussianDiffusion_init bs lt = Inr gd" and lt: "lt \<noteq> ''noisepred''"
      and wfx: "wf_tensor x" and shx: "shape x = [B, H, W, C]"
      and tl: "length t = B"
      and rng: "\<forall>i\<in>set t. 0 \<le> i \<and> i < num_timesteps gd"
      and wfn: "wf_tensor noise" and sh: "shape noise = shape x"
      and dn: "\<forall>y. shape (dn y t) = shape y"
  shows "p_losses gd rn dn x t (Some noise) g = Inl (NotImplementedError lt)"
proof -
  have tl': "length t = hd (shape x)" using tl shx by simp
  obtain x_noisy where q: "q_sample gd rn x t (Some noise) g = Inr (x_noisy, g)"
      and shq: "shape x_noisy = shape x"
    using q_sample_wf[OF init wfx wfn sh tl' rng, of rn g] by auto
  have shr: "shape (dn x_noisy t) = [B, H, W, C]" using dn shq shx by simp
  have lty: "loss_type gd = lt" by (rule init_loss_type[OF init])
  show ?thesis
    unfolding p_losses_def
    by (simp add: shx tl sh q shq shr lty lt Let_def)
qed

lemma init_num_timesteps_pos:
  assumes "GaussianDiffusion_init bs lt = Inr gd"
  shows "1 \<le> num_timesteps gd"
proof -
  obtain rs where rs: "bs = map Fin rs" using init_Inr_reals[OF assms] by blast
  note tab = init_tables[OF assms[unfolded rs]]
  show ?thesis using tab(1,3) by (cases rs) simp_all
qed

lemma p_sample_loop_unsupported:
  assumes init: "GaussianDiffusion_init bs lt = Inr gd" and lt: "lt \<noteq> ''noisepred''"
  shows "p_sample_loop gd dn shp nf g
           = (if shp = [] then Inl IndexError else Inl (NotImplementedError lt))"
proof -
  have lty: "loss_type gd = lt" by (rule init_loss_type[OF init])
  have T: "0 < num_timesteps gd" using init_num_timesteps_pos[OF init] by simp
  have w: "p_sample_while gd dn shp nf (num_timesteps gd - 1) img g0
             = (if shp = [] then Inl IndexError else Inl (NotImplementedError lt))" for img g0
    by (subst p_sample_while.simps)
       (simp add: T p_sample_unsupported lty lt split: list.splits)
  show ?thesis
    unfolding p_sample_loop_def by (simp add: Let_def w split: prod.splits)
qed

lemma trajectory_unsupported:
  assumes init: "GaussianDiffusion_init bs lt = Inr gd" and lt: "lt \<noteq> ''noisepred''"
      and nl: "noise_like shp nf (0 \<le> r) g = Inr (img0, g0)" and ne: "shp \<noteq> []"
  shows "p_sample_loop_trajectory gd dn shp nf r g = Inl (NotImplementedError lt)"
proof -
  have lty: "loss_type gd = lt" by (rule init_loss_type[OF init])
  have T: "0 < num_timesteps gd" using init_num_timesteps_pos[OF init] by simp
  obtain b rest where shp: "shp = b # rest" using ne by (cases shp) auto
  have ind: "independent_noise_while gd dn shp nf [num_timesteps gd - 1] [img0] g0
               = Inl (NotImplementedError lt)"
    by (subst independent_noise_while.simps)
       (simp add: T p_sample_unsupported lty lt shp)
  have rep: "repeat_noise_while gd dn shp nf r [num_timesteps gd - 1] [img0] g0
               = (if 1 \<le> r then Inl (NotImplementedError lt)
                  else Inr ([num_timesteps gd - 1], [img0], g0))"
    by (subst repeat_noise_while.simps)
       (simp add: p_sample_unsupported lty lt shp)
  show ?thesis
    unfolding p_sample_loop_trajectory_def by (simp add: Let_def nl rep ind)
qed

lemma trajectory_unsupported_fails:
  assumes init: "GaussianDiffusion_init bs lt = Inr gd" and lt: "lt \<noteq> ''noisepred''"
  shows "\<exists>e. p_sample_loop_trajectory gd dn shp nf r g = Inl e"
proof (cases "noise_like shp nf (0 \<le> r) g")
  case (Inl e)
  then show ?thesis by (simp add: p_sample_loop_trajectory_def Let_def)
next
  case (Inr p)
  obtain img0 g0 where p: "p = (img0, g0)" by (cases p)
  have lty: "loss_type gd = lt" by (rule init_loss_type[OF init])
  have T: "0 < num_timesteps gd" using init_num_timesteps_pos[OF init] by simp
  show ?thesis
  proof (cases shp)
    case Nil
    have ind: "independent_noise_while gd dn [] nf [num_timesteps gd - 1] [img0] g0 = Inl IndexError"
      by (subst independent_noise_while.simps) (simp add: T)
    have rep: "repeat_noise_while gd dn [] nf r [num_timesteps gd - 1] [img0] g0
               = (if 1 \<le> r then Inl IndexError else Inr ([num_timesteps gd - 1], [img0], g0))"
      by (subst repeat_noise_while.simps) simp
    show ?thesis
      using Inr p Nil by (simp add: p_sample_loop_trajectory_def Let_def rep ind)
  next
    case (Cons b rest)
    then have "shp \<noteq> []" by simp
    from trajectory_unsupported[OF init lt Inr[unfolded p] this] show ?thesis by blast
  qed
qed


text \<open>
  C9. A loss kind other than \<open>noisepred\<close> is accepted at construction (a valid beta
  sequence gives a table that stores the kind), and afterwards every call fails:
  \<open>p_mean_variance\<close> and \<open>p_sample\<close> always with the unsupported-kind error;
  \<open>p_losses\<close>, \<open>p_sample_loop\<close> and \<open>p_sample_loop_trajectory\<close> always with an error, which
  is the unsupported-kind error whenever the call is well formed (the arguments pass the
  shape and length assertions that run before the dispatch on the kind, the shape given
  to a loop is not of rank 0 and the first noise draw succeeds).
\<close>

theorem unsupported_loss_type_fails_at_call:
  assumes lt: "lt \<noteq> ''noisepred''"
  shows "(bs \<noteq> [] \<and> list_all in_unit_interval bs
            \<longrightarrow> (\<exists>gd'. GaussianDiffusion_init bs lt = Inr gd' \<and> loss_type gd' = lt)) \<and>
         (GaussianDiffusion_init bs lt = Inr gd \<longrightarrow>
            p_mean_variance gd denoise_fn x t clip_denoised = Inl (NotImplementedError lt) \<and>
            p_sample gd denoise_fn x t noise_fn clip_denoised repeat_noise g
              = Inl (NotImplementedError lt) \<and>
            (\<exists>e. p_losses gd random_normal denoise_fn x t noise_arg g = Inl e) \<and>
            (wf_tensor x \<and> shape x = [B, H, W, C] \<and> length t = B
               \<and> (\<forall>i\<in>set t. 0 \<le> i \<and> i < num_timesteps gd)
               \<and> wf_tensor noise \<and> shape noise = shape x
               \<and> (\<forall>y. shape (denoise_fn y t) = shape y)
             \<longrightarrow> p_losses gd random_normal denoise_fn x t (Some noise) g
                   = Inl (NotImplementedError lt)) \<and>
            p_sample_loop gd denoise_fn shp noise_fn g
              = (if shp = [] then Inl IndexError else Inl (NotImplementedError lt)) \<and>
            (\<exists>e. p_sample_loop_trajectory gd denoise_fn shp noise_fn repeat_noise_steps g = Inl e) \<and>
            (shp \<noteq> [] \<and> (\<exists>img0 g0. noise_like shp noise_fn (0 \<le> repeat_noise_steps) g = Inr (img0, g0))
             \<longrightarrow> p_sample_loop_trajectory gd denoise_fn shp noise_fn repeat_noise_steps g
                   = Inl (NotImplementedError lt)))"
proof (intro conjI impI)
  assume "bs \<noteq> [] \<and> list_all in_unit_interval bs"
  then obtain gd' where g': "GaussianDiffusion_init bs lt = Inr gd'"
    using init_succeeds[of bs lt] by blast
  then show "\<exists>gd'. GaussianDiffusion_init bs lt = Inr gd' \<and> loss_type gd' = lt"
    using init_loss_type[OF g'] by blast
next
  assume init: "GaussianDiffusion_init bs lt = Inr gd"
  have lty: "loss_type gd = lt" by (rule init_loss_type[OF init])
  then have ne: "loss_type gd \<noteq> ''noisepred''" using lt by simp
  show "p_mean_variance gd denoise_fn x t clip_denoised = Inl (NotImplementedError lt)"
    using p_mean_variance_unsupported[OF ne] lty by simp
  show "p_sample gd denoise_fn x t noise_fn clip_denoised repeat_noise g
              = Inl (NotImplementedError lt)"
    using p_sample_unsupported[OF ne] lty by simp
  show "\<exists>e. p_losses gd random_normal denoise_fn x t noise_arg g = Inl e"
    by (rule p_losses_unsupported_fails[OF ne])
  show "p_sample_loop gd denoise_fn shp noise_fn g
              = (if shp = [] then Inl IndexError else Inl (NotImplementedError lt))"
    by (rule p_sample_loop_unsupported[OF init lt])
  show "\<exists>e. p_sample_loop_trajectory gd denoise_fn shp noise_fn repeat_noise_steps g = Inl e"
    by (rule trajectory_unsupported_fails[OF init lt])
next
  assume init: "GaussianDiffusion_init bs lt = Inr gd"
     and h: "wf_tensor x \<and> shape x = [B, H, W, C] \<and> length t = B
               \<and> (\<forall>i\<in>set t. 0 \<le> i \<and> i < num_timesteps gd)
               \<and> wf_tensor noise \<and> shape noise = shape x
               \<and> (\<forall>y. shape (denoise_fn y t) = shape y)"
  show "p_losses gd random_normal denoise_fn x t (Some noise) g = Inl (NotImplementedError lt)"
    by (rule p_losses_unsupported[OF init lt]) (use h in simp_all)
next
  assume init: "GaussianDiffusion_init bs lt = Inr gd"
     and h: "shp \<noteq> [] \<and> (\<exists>img0 g0. noise_like shp noise_fn (0 \<le> repeat_noise_steps) g = Inr (img0, g0))"
  then obtain img0 g0 where nl: "noise_like shp noise_fn (0 \<le> repeat_noise_steps) g = Inr (img0, g0)"
    by blast
  show "p_sample_loop_trajectory gd denoise_fn shp noise_fn repeat_noise_steps g
                   = Inl (NotImplementedError lt)"
    using trajectory_unsupported[OF init lt nl] h by blast
qed


theorem unsupported_loss_type_fails_at_call_witness:
  "''l2'' \<noteq> ''noisepred'' \<and>
   (\<exists>gd. GaussianDiffusion_init [Fin (1/2)] ''l2'' = Inr gd \<and>
      p_mean_variance gd (\<lambda>x t. x) \<lparr> shape = [1, 1, 1, 1], rows = [[Fin 1]] \<rparr> [0] True
        = Inl (NotImplementedError ''l2'') \<and>
      p_sample gd (\<lambda>x t. x) \<lparr> shape = [1, 1, 1, 1], rows = [[Fin 1]] \<rparr> [0]
          (\<lambda>s g. (\<lparr> shape = s, rows = [] \<rparr>, g)) True False ()
        = Inl (NotImplementedError ''l2'') \<and>
      p_losses gd (\<lambda>s g. (\<lparr> shape = s, rows = [] \<rparr>, g)) (\<lambda>x t. x)
          \<lparr> shape = [1, 1, 1, 1], rows = [[Fin 1]] \<rparr> [0]
          (Some \<lparr> shape = [1, 1, 1, 1], rows = [[Fin 2]] \<rparr>) ()
        = Inl (NotImplementedError ''l2'') \<and>
      p_sample_loop gd (\<lambda>x t. x) [1, 1, 1, 1] (\<lambda>s g. (\<lparr> shape = s, rows = [] \<rparr>, g)) ()
        = Inl (NotImplementedError ''l2'') \<and>
      p_sample_loop_trajectory gd (\<lambda>x t. x) [1, 1, 1, 1]
          (\<lambda>s g. (\<lparr> shape = s, rows = [] \<rparr>, g)) (- 1) ()
        = Inl (NotImplementedError ''l2''))"
proof -
  have l: "''l2'' \<noteq> ''noisepred''" by simp
  obtain gd where gd: "GaussianDiffusion_init [Fin (1/2)] ''l2'' = Inr gd"
    using init_succeeds[of "[Fin (1/2)]" "''l2''"]
    by (auto simp: in_unit_interval_def)
  have gd': "GaussianDiffusion_init (map Fin [1/2]) ''l2'' = Inr gd" using gd by simp
  have nt: "num_timesteps gd = 1" using init_tables(3)[OF gd'] by simp
  let ?x = "\<lparr> shape = [1, 1, 1, 1], rows = [[Fin 1]] \<rparr>"
  let ?n = "\<lparr> shape = [1, 1, 1, 1], rows = [[Fin 2]] \<rparr>"
  let ?nf = "\<lambda>(s::nat list) (g::unit). (\<lparr> shape = s, rows = [] \<rparr>, g)"
  have h: "wf_tensor ?x \<and> shape ?x = [1, 1, 1, 1] \<and> length [0::int] = 1
             \<and> (\<forall>i\<in>set [0::int]. 0 \<le> i \<and> i < num_timesteps gd)
             \<and> wf_tensor ?n \<and> shape ?n = shape ?x
             \<and> (\<forall>y. shape ((\<lambda>x t. x) y [0::int]) = shape y)"
    by (simp add: wf_tensor_def nt)
  have n: "[1, 1, 1, 1] \<noteq> ([]::nat list)
            \<and> (\<exists>img0 g0. noise_like [1, 1, 1, 1] ?nf (0 \<le> (- 1::int)) () = Inr (img0, g0))"
    by (simp add: noise_like_def)
  show ?thesis
    using unsupported_loss_type_fails_at_call[OF l,
            where bs="[Fin (1/2)]" and gd=gd and denoise_fn="\<lambda>x t. x" and x="?x" and t="[0]"
              and clip_denoised=True and noise_fn="?nf" and repeat_noise=False and g="()"
              and random_normal="?nf" and noise_arg="Some ?n" and noise="?n"
              and B=1 and H=1 and W=1 and C=1 and shp="[1, 1, 1, 1]"
              and repeat_noise_steps="- 1"]
          gd h n l
    by simp
qed

subsection \<open>The sampling loop\<close>

lemma countdown_Suc: "countdown (Suc n) = int n # countdown n"
  by (simp add: countdown_def)

lemma countdown_0: "countdown 0 = []"
  by (simp add: countdown_def)

lemma length_countdown: "length (countdown n) = n"
  by (simp add: countdown_def)

lemma countdown_range: "i \<in> set (countdown n) \<Longrightarrow> 0 \<le> i \<and> i < int n"
  by (auto simp: countdown_def)

lemma p_sample_while_steps:
  "p_sample_while gd dn (b # rest) nf (int n - 1) img g
     = (case reverse_steps gd dn b nf (countdown n) img g of
          Inl e \<Rightarrow> Inl e
        | Inr (img', g') \<Rightarrow> Inr (- 1, img', g'))"
proof (induction n arbitrary: img g)
  case 0
  show ?case by (subst p_sample_while.simps) (simp add: countdown_0)
next
  case (Suc n)
  show ?case
    by (subst p_sample_while.simps)
       (simp add: countdown_Suc Suc.IH split: sum.splits prod.splits)
qed

lemma p_sample_ok:
  assumes init: "GaussianDiffusion_init bs ''noisepred'' = Inr gd"
      and shx: "shape x = [B, H, W, C]" and lt: "length t = B"
      and rng: "\<forall>i\<in>set t. 0 \<le> i \<and> i < num_timesteps gd"
      and dn: "\<forall>y u. shape (dn y u) = shape y"
      and nf: "\<forall>s g. shape (fst (nf s g)) = s"
  shows "\<exists>img' g'. p_sample gd dn x t nf True False g = Inr (img', g') \<and> shape img' = [B, H, W, C]"
proof -
  have shd: "shape (dn x t) = shape x" using dn by simp
  obtain mean var logvar where
        pmv: "p_mean_variance gd dn x t True = Inr (mean, var, logvar)"
    and shm: "shape mean = shape x"
    and shl: "shape logvar = [B, 1, 1, 1]"
    using p_mean_variance_ok[where dn=dn and x=x and t=t and clip=True,
            OF init shx lt rng shd] by auto
  have sx: "shape x = B # [H, W, C]" using shx by simp
  obtain noise g' where n: "nf (shape x) g = (noise, g')" by (cases "nf (shape x) g")
  have shn: "shape noise = shape x" using nf[rule_format, of "shape x" g] n by simp
  have nl: "noise_like (shape x) nf False g = Inr (noise, g')" by (simp add: noise_like_def n)
  note nm = nonzero_mask_ok[OF sx lt]
  have "p_sample gd dn x t nf True False g
          = Inr (tbin fadd mean
                   (tbin fmul
                      (tbin fmul \<lparr> shape = B # replicate (length [H, W, C]) 1,
                                    rows = map (\<lambda>i. [if i = 0 then Fin 0 else Fin 1]) t \<rparr>
                         (tmap fexp (tmap (fmul (Fin 0.5)) logvar)))
                      noise), g')"
    unfolding p_sample_def by (simp add: pmv nl shn nm)
  moreover have "shape (tbin fadd mean
                   (tbin fmul
                      (tbin fmul \<lparr> shape = B # replicate (length [H, W, C]) 1,
                                    rows = map (\<lambda>i. [if i = 0 then Fin 0 else Fin 1]) t \<rparr>
                         (tmap fexp (tmap (fmul (Fin 0.5)) logvar)))
                      noise)) = [B, H, W, C]"
    by (simp add: tbin_def tmap_def shm shn shx shl bdim_def)
  ultimately show ?thesis by blast
qed


lemma reverse_steps_ok:
  assumes init: "GaussianDiffusion_init bs ''noisepred'' = Inr gd"
      and dn: "\<forall>y u. shape (dn y u) = shape y"
      and nf: "\<forall>s g. shape (fst (nf s g)) = s"
      and rng: "\<forall>i\<in>set ts. 0 \<le> i \<and> i < num_timesteps gd"
      and shi: "shape img = [B, H, W, C]"
  shows "\<exists>img' g'. reverse_steps gd dn B nf ts img g = Inr (img', g') \<and> shape img' = [B, H, W, C]"
  using rng shi
proof (induction ts arbitrary: img g)
  case Nil
  then show ?case by simp
next
  case (Cons i ts)
  have l: "length (replicate B i) = B" by simp
  have r: "\<forall>j\<in>set (replicate B i). 0 \<le> j \<and> j < num_timesteps gd"
    using Cons.prems(1) by auto
  obtain img1 g1 where
      p: "p_sample gd dn img (replicate B i) nf True False g = Inr (img1, g1)"
      and s1: "shape img1 = [B, H, W, C]"
    using p_sample_ok[OF init Cons.prems(2) l r dn nf, of g] by blast
  have "\<forall>i\<in>set ts. 0 \<le> i \<and> i < num_timesteps gd" using Cons.prems(1) by simp
  from Cons.IH[OF this s1, of g1] show ?case by (simp add: p)
qed

text \<open>
  The claim C2 as stated, for every \<open>GaussianDiffusion\<close>, fails for one built with a loss
  kind other than \<open>noisepred\<close>: with one timestep, the shape \<open>[1, 1, 1, 1]\<close>, a denoising
  function that preserves shapes and a noise source that returns the requested shape,
  \<open>p_sample_loop\<close> returns no tensor; its first step raises the unsupported-kind error.
\<close>

theorem p_sample_loop_counterexample:
  "\<exists>gd. GaussianDiffusion_init [Fin (1/2)] ''l2'' = Inr gd \<and>
     p_sample_loop gd (\<lambda>x t. x) [1, 1, 1, 1]
        (\<lambda>s g. (\<lparr> shape = s, rows = replicate (hd s) (replicate (prod_list (tl s)) (Fin 0)) \<rparr>, g)) ()
       = Inl (NotImplementedError ''l2'')"
proof -
  have l: "''l2'' \<noteq> ''noisepred''" by simp
  obtain gd where gd: "GaussianDiffusion_init [Fin (1/2)] ''l2'' = Inr gd"
    using init_succeeds[of "[Fin (1/2)]" "''l2''"]
    by (auto simp: in_unit_interval_def)
  have "p_sample_loop gd (\<lambda>x t. x) [1, 1, 1, 1]
        (\<lambda>s g. (\<lparr> shape = s, rows = replicate (hd s) (replicate (prod_list (tl s)) (Fin 0)) \<rparr>, g)) ()
       = Inl (NotImplementedError ''l2'')"
    by (subst p_sample_loop_unsupported[OF gd l]) simp
  then show ?thesis using gd by blast
qed

text \<open>
  C2 (amended). For every \<open>GaussianDiffusion\<close> built with the loss kind \<open>noisepred\<close> from
  a beta sequence of length \<open>T\<close> (\<open>T > 0\<close> follows from construction), every shape
  \<open>[B, H, W, C]\<close>, every denoising function that preserves shapes and every noise source
  that returns tensors of the requested shape: \<open>p_sample_loop\<close> is the composition of
  exactly \<open>T\<close> reverse steps, at the timesteps \<open>T-1, ..., 0\<close> in this order, each applied
  to the output of the step before and the first to a fresh draw of the noise source at
  the given shape; it terminates and returns a tensor of shape \<open>[B, H, W, C]\<close>.
\<close>

theorem p_sample_loop_runs_T_steps:
  assumes init: "GaussianDiffusion_init bs ''noisepred'' = Inr gd"
      and dn: "\<forall>y u. shape (denoise_fn y u) = shape y"
      and nf: "\<forall>s g. shape (fst (noise_fn s g)) = s"
  shows "length (countdown (length bs)) = length bs \<and>
         p_sample_loop gd denoise_fn [B, H, W, C] noise_fn g
           = (case noise_fn [B, H, W, C] g of
                (img_0, g0) \<Rightarrow>
                  reverse_steps gd denoise_fn B noise_fn (countdown (length bs)) img_0 g0) \<and>
         (\<exists>img g'. p_sample_loop gd denoise_fn [B, H, W, C] noise_fn g = Inr (img, g')
                    \<and> shape img = [B, H, W, C])"
proof -
  obtain rs where rs: "bs = map Fin rs" using init_Inr_reals[OF init] by blast
  have T: "num_timesteps gd = int (length bs)"
    using init_tables(3)[OF init[unfolded rs]] rs by simp
  obtain img_0 g0 where n: "noise_fn [B, H, W, C] g = (img_0, g0)"
    by (cases "noise_fn [B, H, W, C] g")
  have s0: "shape img_0 = [B, H, W, C]" using nf[rule_format, of "[B, H, W, C]" g] n by simp
  have rng: "\<forall>i\<in>set (countdown (length bs)). 0 \<le> i \<and> i < num_timesteps gd"
    using countdown_range[of _ "length bs"] T by auto
  obtain img g' where
      r: "reverse_steps gd denoise_fn B noise_fn (countdown (length bs)) img_0 g0 = Inr (img, g')"
      and si: "shape img = [B, H, W, C]"
    using reverse_steps_ok[OF init dn nf rng s0, of g0] by blast
  have w: "p_sample_while gd denoise_fn [B, H, W, C] noise_fn (int (length bs) - 1) img_0 g0
             = Inr (- 1, img, g')"
    using p_sample_while_steps[of gd denoise_fn B "[H, W, C]" noise_fn "length bs" img_0 g0]
    by (simp add: r)
  have loop: "p_sample_loop gd denoise_fn [B, H, W, C] noise_fn g = Inr (img, g')"
    unfolding p_sample_loop_def by (simp add: Let_def n T w si)
  show ?thesis using loop si by (simp add: length_countdown n r)
qed

theorem p_sample_loop_runs_T_steps_witness:
  "\<exists>gd. GaussianDiffusion_init [Fin (1/2), Fin (1/4)] ''noisepred'' = Inr gd \<and>
     length (countdown (length [Fin (1/2), Fin (1/4)])) = length [Fin (1/2), Fin (1/4)] \<and>
     p_sample_loop gd (\<lambda>x t. x) [1, 1, 1, 1] (\<lambda>s g. (\<lparr> shape = s, rows = [] \<rparr>, g)) ()
       = (case (\<lparr> shape = [1, 1, 1, 1], rows = [] \<rparr>, ()) of
            (img_0, g0) \<Rightarrow>
              reverse_steps gd (\<lambda>x t. x) 1 (\<lambda>s g. (\<lparr> shape = s, rows = [] \<rparr>, g))
                (countdown (length [Fin (1/2), Fin (1/4)])) img_0 g0) \<and>
     (\<exists>img g'. p_sample_loop gd (\<lambda>x t. x) [1, 1, 1, 1]
                  (\<lambda>s g. (\<lparr> shape = s, rows = [] \<rparr>, g)) () = Inr (img, g')
                \<and> shape img = [1, 1, 1, 1])"
proof -
  obtain gd where gd: "GaussianDiffusion_init [Fin (1/2), Fin (1/4)] ''noisepred'' = Inr gd"
    using init_succeeds[of "[Fin (1/2), Fin (1/4)]" "''noisepred''"]
    by (auto simp: in_unit_interval_def)
  have h1: "\<forall>y u. shape ((\<lambda>x (t::int list). x) y u) = shape y" by simp
  have h2: "\<forall>s g. shape (fst ((\<lambda>s (g::unit). (\<lparr> shape = s, rows = [] \<rparr>, g)) s g)) = s" by simp
  show ?thesis
    using p_sample_loop_runs_T_steps[where denoise_fn="\<lambda>x t. x"
              and noise_fn="\<lambda>s g. (\<lparr> shape = s, rows = [] \<rparr>, g)"
              and B=1 and H=1 and W=1 and C=1 and g="()", OF gd h1 h2] gd
    by blast
qed

subsection \<open>The trajectory loop\<close>

text \<open>The \<open>k\<close> timesteps \<open>t, t - 1, ...\<close> (used in the proofs).\<close>

fun down :: "int \<Rightarrow> nat \<Rightarrow> int list" where
  "down t 0 = []"
| "down t (Suc k) = t # down (t - 1) k"

lemma length_down: "length (down t k) = k"
  by (induction k arbitrary: t) auto

lemma last_after_down: "last (t # map (\<lambda>u. u - 1) (down t k)) = t - int k"
proof (induction k arbitrary: t)
  case 0 show ?case by simp
next
  case (Suc k)
  have "last (t # map (\<lambda>u. u - 1) (down t (Suc k)))
          = last ((t - 1) # map (\<lambda>u. u - 1) (down (t - 1) k))" by simp
  also have "\<dots> = t - 1 - int k" by (rule Suc.IH)
  finally show ?case by simp
qed

lemma countdown_down: "countdown n = down (int n - 1) n"
proof (induction n)
  case 0 show ?case by (simp add: countdown_0)
next
  case (Suc n)
  then show ?case by (simp add: countdown_Suc)
qed

lemma take_down: "k \<le> n \<Longrightarrow> take k (down t n) = down t k"
proof (induction k arbitrary: t n)
  case 0 show ?case by simp
next
  case (Suc k)
  then obtain m where "n = Suc m" by (cases n) auto
  then show ?case using Suc by simp
qed

lemma drop_down: "k \<le> n \<Longrightarrow> drop k (down t n) = down (t - int k) (n - k)"
proof (induction k arbitrary: t n)
  case 0 show ?case by simp
next
  case (Suc k)
  then obtain m where m: "n = Suc m" by (cases n) auto
  have "drop k (down (t - 1) m) = down (t - 1 - int k) (m - k)" using Suc m by simp
  then show ?case using m by (simp add: algebra_simps)
qed

lemma trajectory_steps_append:
  "trajectory_steps gd dn b nf (xs @ ys) tms imgs g
     = (case trajectory_steps gd dn b nf xs tms imgs g of
          Inl e \<Rightarrow> Inl e
        | Inr (tms', imgs', g') \<Rightarrow> trajectory_steps gd dn b nf ys tms' imgs' g')"
  by (induction xs arbitrary: tms imgs g) (auto split: sum.splits)

lemma trajectory_steps_state:
  "trajectory_steps gd dn b nf cs tms imgs g = Inr (tms', imgs', g')
     \<Longrightarrow> tms' = tms @ map (\<lambda>c. fst c - 1) cs \<and> length imgs' = length imgs + length cs"
proof (induction cs arbitrary: tms imgs g)
  case Nil then show ?case by simp
next
  case (Cons c cs)
  from Cons.prems obtain img1 g1 where
    p: "p_sample gd dn (last imgs) (replicate b (fst c)) nf True (snd c) g = Inr (img1, g1)"
    and r: "trajectory_steps gd dn b nf cs (tms @ [fst c - 1]) (imgs @ [img1]) g1 = Inr (tms', imgs', g')"
    by (auto split: sum.splits)
  from Cons.IH[OF r] show ?case by simp
qed


lemma repeat_noise_while_steps:
  assumes "tms \<noteq> []" "imgs \<noteq> []"
      and "k = nat (r - (num_timesteps gd - last tms) + 1)"
  shows "repeat_noise_while gd dn (b # rest) nf r tms imgs g
           = trajectory_steps gd dn b nf (map (\<lambda>t. (t, True)) (down (last tms) k)) tms imgs g"
  using assms
proof (induction k arbitrary: tms imgs g)
  case 0
  then have "\<not> num_timesteps gd - last tms \<le> r" by simp
  then show ?case
    using 0 by (subst repeat_noise_while.simps) simp
next
  case (Suc k)
  then have c: "num_timesteps gd - last tms \<le> r" by simp
  have k: "k = nat (r - (num_timesteps gd - last (tms @ [last tms - 1])) + 1)"
    using Suc.prems(3) by simp
  have ih: "repeat_noise_while gd dn (b # rest) nf r (tms @ [last tms - 1]) (imgs @ [img']) g'
              = trajectory_steps gd dn b nf (map (\<lambda>t. (t, True)) (down (last tms - 1) k))
                  (tms @ [last tms - 1]) (imgs @ [img']) g'" for img' g'
    using Suc.IH[of "tms @ [last tms - 1]" "imgs @ [img']" g'] k by simp
  show ?case
    by (subst repeat_noise_while.simps)
       (simp add: Suc.prems(1,2) c ih split: sum.splits prod.splits)
qed

lemma independent_noise_while_steps:
  assumes "tms \<noteq> []" "imgs \<noteq> []"
      and "k = nat (last tms + 1)"
  shows "independent_noise_while gd dn (b # rest) nf tms imgs g
           = trajectory_steps gd dn b nf (map (\<lambda>t. (t, False)) (down (last tms) k)) tms imgs g"
  using assms
proof (induction k arbitrary: tms imgs g)
  case 0
  then have "\<not> 0 \<le> last tms" by simp
  then show ?case
    using 0 by (subst independent_noise_while.simps) simp
next
  case (Suc k)
  then have c: "0 \<le> last tms" by simp
  have k: "k = nat (last (tms @ [last tms - 1]) + 1)"
    using Suc.prems(3) by simp
  have ih: "independent_noise_while gd dn (b # rest) nf (tms @ [last tms - 1]) (imgs @ [img']) g'
              = trajectory_steps gd dn b nf (map (\<lambda>t. (t, False)) (down (last tms - 1) k))
                  (tms @ [last tms - 1]) (imgs @ [img']) g'" for img' g'
    using Suc.IH[of "tms @ [last tms - 1]" "imgs @ [img']" g'] k by simp
  show ?case
    by (subst independent_noise_while.simps)
       (simp add: Suc.prems(1,2) c ih split: sum.splits prod.splits)
qed

lemma trajectory_loops_steps:
  assumes T: "num_timesteps gd = int n" and r: "r \<le> int n"
  shows "(case repeat_noise_while gd dn (b # rest) nf r [int n - 1] [img_0] g0 of
            Inl e \<Rightarrow> Inl e
          | Inr (tms1, imgs1, g1) \<Rightarrow> independent_noise_while gd dn (b # rest) nf tms1 imgs1 g1)
         = trajectory_steps gd dn b nf (trajectory_calls n r) [int n - 1] [img_0] g0"
proof -
  define k1 where "k1 = nat r"
  have k1n: "k1 \<le> n" using r by (simp add: k1_def)
  have rep: "repeat_noise_while gd dn (b # rest) nf r [int n - 1] [img_0] g0
               = trajectory_steps gd dn b nf (map (\<lambda>t. (t, True)) (down (int n - 1) k1))
                   [int n - 1] [img_0] g0"
    using repeat_noise_while_steps[of "[int n - 1]" "[img_0]" k1 r gd dn b rest nf g0]
    by (simp add: T k1_def)
  have calls: "trajectory_calls n r
                 = map (\<lambda>t. (t, True)) (down (int n - 1) k1) @
                   map (\<lambda>t. (t, False)) (down (int n - 1 - int k1) (n - k1))"
    unfolding trajectory_calls_def countdown_down k1_def[symmetric]
    by (simp add: take_down[OF k1n] drop_down[OF k1n])
  have ind: "independent_noise_while gd dn (b # rest) nf tms1 imgs1 g1
               = trajectory_steps gd dn b nf
                   (map (\<lambda>t. (t, False)) (down (int n - 1 - int k1) (n - k1))) tms1 imgs1 g1"
    if s: "trajectory_steps gd dn b nf (map (\<lambda>t. (t, True)) (down (int n - 1) k1))
             [int n - 1] [img_0] g0 = Inr (tms1, imgs1, g1)" for tms1 imgs1 g1
  proof -
    from trajectory_steps_state[OF s]
    have t1: "tms1 = (int n - 1) # map (\<lambda>u. u - 1) (down (int n - 1) k1)"
      and l1: "length imgs1 = 1 + k1"
      by (simp_all add: comp_def length_down)
    have lt: "last tms1 = int n - 1 - int k1" unfolding t1 by (rule last_after_down)
    have ne: "tms1 \<noteq> []" "imgs1 \<noteq> []" using t1 l1 by auto
    have kk: "n - k1 = nat (last tms1 + 1)" using lt k1n by simp
    show ?thesis
      using independent_noise_while_steps[OF ne kk, of gd dn b rest nf g1] by (simp add: lt)
  qed
  show ?thesis
    unfolding rep calls trajectory_steps_append
    by (auto split: sum.splits simp: ind)
qed


lemma down_range: "u \<in> set (down t k) \<Longrightarrow> t - int k < u \<and> u \<le> t"
proof (induction k arbitrary: t)
  case 0 then show ?case by simp
next
  case (Suc k)
  then show ?case by fastforce
qed

lemma trajectory_calls_flags:
  assumes r: "r \<le> int n"
  shows "map fst (trajectory_calls n r) = countdown n"
    and "\<forall>c\<in>set (trajectory_calls n r). snd c = (int n - fst c \<le> r)"
proof -
  show "map fst (trajectory_calls n r) = countdown n"
    by (simp add: trajectory_calls_def comp_def flip: take_map drop_map)
  define k1 where "k1 = nat r"
  have k1n: "k1 \<le> n" using r by (simp add: k1_def)
  have calls: "trajectory_calls n r
                 = map (\<lambda>t. (t, True)) (down (int n - 1) k1) @
                   map (\<lambda>t. (t, False)) (down (int n - 1 - int k1) (n - k1))"
    unfolding trajectory_calls_def countdown_down k1_def[symmetric]
    by (simp add: take_down[OF k1n] drop_down[OF k1n])
  show "\<forall>c\<in>set (trajectory_calls n r). snd c = (int n - fst c \<le> r)"
  proof
    fix c assume "c \<in> set (trajectory_calls n r)"
    then consider (rep) u where "c = (u, True)" "u \<in> set (down (int n - 1) k1)"
                | (ind) u where "c = (u, False)" "u \<in> set (down (int n - 1 - int k1) (n - k1))"
      unfolding calls by auto
    then show "snd c = (int n - fst c \<le> r)"
    proof cases
      case rep
      from down_range[OF rep(2)] have "int n - u \<le> int k1" by simp
      moreover have "0 < k1" using rep(2) by (cases k1) auto
      ultimately show ?thesis using rep(1) by (simp add: k1_def)
    next
      case ind
      from down_range[OF ind(2)] have "int k1 < int n - u" by simp
      moreover have "r \<le> int k1" by (simp add: k1_def)
      ultimately have "\<not> int n - u \<le> r" by linarith
      then show ?thesis using ind(1) by simp
    qed
  qed
qed

lemma trajectory_eq_steps:
  assumes init: "GaussianDiffusion_init bs lt = Inr gd"
      and r: "repeat_noise_steps \<le> int (length bs)"
  shows "p_sample_loop_trajectory gd denoise_fn (b # rest) noise_fn repeat_noise_steps g
           = (case noise_like (b # rest) noise_fn (0 \<le> repeat_noise_steps) g of
                Inl e \<Rightarrow> Inl e
              | Inr (img_0, g0) \<Rightarrow>
                  (case trajectory_steps gd denoise_fn b noise_fn
                          (trajectory_calls (length bs) repeat_noise_steps)
                          [int (length bs) - 1] [img_0] g0 of
                     Inl e \<Rightarrow> Inl e
                   | Inr (tms, imgs, g') \<Rightarrow>
                       if shape (last imgs) \<noteq> b # rest then Inl AssertionError
                       else Inr (tms, imgs, g')))"
proof -
  obtain rs where rs: "bs = map Fin rs" using init_Inr_reals[OF init] by blast
  have T: "num_timesteps gd = int (length bs)"
    using init_tables(3)[OF init[unfolded rs]] rs by simp
  show ?thesis
  proof (cases "noise_like (b # rest) noise_fn (0 \<le> repeat_noise_steps) g")
    case (Inl e)
    then show ?thesis by (simp add: p_sample_loop_trajectory_def Let_def)
  next
    case (Inr p)
    obtain img_0 g0 where p: "p = (img_0, g0)" by (cases p)
    note nl = Inr[unfolded p]
    note loops = trajectory_loops_steps[OF T r, of denoise_fn b rest noise_fn img_0 g0]
    show ?thesis
    proof (cases "trajectory_steps gd denoise_fn b noise_fn
                    (trajectory_calls (length bs) repeat_noise_steps)
                    [int (length bs) - 1] [img_0] g0")
      case (Inl e)
      then show ?thesis
        using loops
        by (auto simp: p_sample_loop_trajectory_def Let_def nl T split: sum.splits)
    next
      case (Inr q)
      obtain tms imgs g' where q: "q = (tms, imgs, g')" by (cases q)
      from trajectory_steps_state[OF Inr[unfolded q]] have ne: "imgs \<noteq> []" by auto
      show ?thesis
        using loops ne
        by (auto simp: p_sample_loop_trajectory_def Let_def nl T Inr q split: sum.splits)
    qed
  qed
qed

text \<open>
  C3 (amended). In \<open>p_sample_loop_trajectory\<close> with \<open>repeat_noise_steps = r \<le> T\<close>, the
  initial image is drawn with the noise repeated across the batch exactly when \<open>r \<ge> 0\<close>,
  and the loops are the reverse steps at the timesteps \<open>T-1, ..., 0\<close> in this order, the
  step at timestep \<open>t\<close> invoked with \<open>repeat_noise = (T - t \<le> r)\<close>: the first \<open>r\<close> steps
  use the same noise across the batch (\<open>repeat_noise=true\<close>), every later step
  independent noise per batch element (\<open>repeat_noise=false\<close>), and with a negative \<open>r\<close>
  (the default \<open>-1\<close>) every step does.
\<close>

theorem trajectory_repeats_noise_on_first_steps:
  assumes init: "GaussianDiffusion_init bs lt = Inr gd"
      and r: "repeat_noise_steps \<le> int (length bs)"
  shows "p_sample_loop_trajectory gd denoise_fn (b # rest) noise_fn repeat_noise_steps g
           = (case noise_like (b # rest) noise_fn (0 \<le> repeat_noise_steps) g of
                Inl e \<Rightarrow> Inl e
              | Inr (img_0, g0) \<Rightarrow>
                  (case trajectory_steps gd denoise_fn b noise_fn
                          (trajectory_calls (length bs) repeat_noise_steps)
                          [int (length bs) - 1] [img_0] g0 of
                     Inl e \<Rightarrow> Inl e
                   | Inr (tms, imgs, g') \<Rightarrow>
                       if shape (last imgs) \<noteq> b # rest then Inl AssertionError
                       else Inr (tms, imgs, g'))) \<and>
         map fst (trajectory_calls (length bs) repeat_noise_steps) = countdown (length bs) \<and>
         (\<forall>c\<in>set (trajectory_calls (length bs) repeat_noise_steps).
            snd c = (int (length bs) - fst c \<le> repeat_noise_steps))"
  by (intro conjI trajectory_eq_steps[OF init r] trajectory_calls_flags[OF r])

theorem trajectory_repeats_noise_on_first_steps_witness:
  "\<exists>gd. GaussianDiffusion_init [Fin (1/2), Fin (1/4)] ''noisepred'' = Inr gd \<and>
     (1::int) \<le> int (length [Fin (1/2), Fin (1/4)]) \<and>
     trajectory_calls (length [Fin (1/2), Fin (1/4)]) 1 = [(1, True), (0, False)] \<and>
     p_sample_loop_trajectory gd (\<lambda>x t. x) (1 # [1, 1, 1])
         (\<lambda>s g. (\<lparr> shape = s, rows = [] \<rparr>, g)) 1 ()
       = (case noise_like (1 # [1, 1, 1]) (\<lambda>s g. (\<lparr> shape = s, rows = [] \<rparr>, g)) (0 \<le> (1::int)) () of
            Inl e \<Rightarrow> Inl e
          | Inr (img_0, g0) \<Rightarrow>
              (case trajectory_steps gd (\<lambda>x t. x) 1 (\<lambda>s g. (\<lparr> shape = s, rows = [] \<rparr>, g))
                      (trajectory_calls (length [Fin (1/2), Fin (1/4)]) 1)
                      [int (length [Fin (1/2), Fin (1/4)]) - 1] [img_0] g0 of
                 Inl e \<Rightarrow> Inl e
               | Inr (tms, imgs, g') \<Rightarrow>
                   if shape (last imgs) \<noteq> 1 # [1, 1, 1] then Inl AssertionError
                   else Inr (tms, imgs, g')))"
proof -
  obtain gd where gd: "GaussianDiffusion_init [Fin (1/2), Fin (1/4)] ''noisepred'' = Inr gd"
    using init_succeeds[of "[Fin (1/2), Fin (1/4)]" "''noisepred''"]
    by (auto simp: in_unit_interval_def)
  have h: "(1::int) \<le> int (length [Fin (1/2), Fin (1/4)])" by simp
  have c: "trajectory_calls (length [Fin (1/2), Fin (1/4)]) 1 = [(1, True), (0, False)]"
    by (simp add: trajectory_calls_def countdown_def)
  show ?thesis
    using trajectory_repeats_noise_on_first_steps[OF gd h,
            where denoise_fn="\<lambda>x t. x" and noise_fn="\<lambda>s g. (\<lparr> shape = s, rows = [] \<rparr>, g)"
              and b=1 and rest="[1, 1, 1]" and g="()"] gd h c
    by blast
qed


lemma noise_like_ok:
  assumes nf: "\<forall>s g. shape (fst (nf s g)) = s"
  shows "\<exists>noise. noise_like (B # rest) nf rep g
                   = Inr (noise, snd (nf (if rep then 1 # rest else B # rest) g))
               \<and> shape noise = B # rest"
proof (cases rep)
  case True
  obtain z g' where z: "nf (1 # rest) g = (z, g')" by (cases "nf (1 # rest) g")
  have sz: "shape z = 1 # rest" using nf[rule_format, of "1 # rest" g] z by simp
  show ?thesis using True z sz by (simp add: noise_like_def tf_repeat0_def)
next
  case False
  obtain z g' where z: "nf (B # rest) g = (z, g')" by (cases "nf (B # rest) g")
  have sz: "shape z = B # rest" using nf[rule_format, of "B # rest" g] z by simp
  show ?thesis using False z sz by (simp add: noise_like_def)
qed

lemma p_sample_ok_rep:
  assumes init: "GaussianDiffusion_init bs ''noisepred'' = Inr gd"
      and shx: "shape x = [B, H, W, C]" and lt: "length t = B"
      and rng: "\<forall>i\<in>set t. 0 \<le> i \<and> i < num_timesteps gd"
      and dn: "\<forall>y u. shape (dn y u) = shape y"
      and nf: "\<forall>s g. shape (fst (nf s g)) = s"
  shows "\<exists>img'. p_sample gd dn x t nf True rep g
                   = Inr (img', snd (nf (if rep then [1, H, W, C] else [B, H, W, C]) g))
               \<and> shape img' = [B, H, W, C]"
proof -
  have shd: "shape (dn x t) = shape x" using dn by simp
  obtain mean var logvar where
        pmv: "p_mean_variance gd dn x t True = Inr (mean, var, logvar)"
    and shm: "shape mean = shape x"
    and shl: "shape logvar = [B, 1, 1, 1]"
    using p_mean_variance_ok[where dn=dn and x=x and t=t and clip=True,
            OF init shx lt rng shd] by auto
  have sx: "shape x = B # [H, W, C]" using shx by simp
  obtain noise where
      nl: "noise_like (shape x) nf rep g
             = Inr (noise, snd (nf (if rep then [1, H, W, C] else [B, H, W, C]) g))"
      and shn: "shape noise = shape x"
    using noise_like_ok[OF nf, of B "[H, W, C]" rep g] sx by auto
  note nm = nonzero_mask_ok[OF sx lt]
  have "p_sample gd dn x t nf True rep g
          = Inr (tbin fadd mean
                   (tbin fmul
                      (tbin fmul \<lparr> shape = B # replicate (length [H, W, C]) 1,
                                    rows = map (\<lambda>i. [if i = 0 then Fin 0 else Fin 1]) t \<rparr>
                         (tmap fexp (tmap (fmul (Fin 0.5)) logvar)))
                      noise),
                 snd (nf (if rep then [1, H, W, C] else [B, H, W, C]) g))"
    unfolding p_sample_def by (simp add: pmv nl shn nm)
  moreover have "shape (tbin fadd mean
                   (tbin fmul
                      (tbin fmul \<lparr> shape = B # replicate (length [H, W, C]) 1,
                                    rows = map (\<lambda>i. [if i = 0 then Fin 0 else Fin 1]) t \<rparr>
                         (tmap fexp (tmap (fmul (Fin 0.5)) logvar)))
                      noise)) = [B, H, W, C]"
    by (simp add: tbin_def tmap_def shm shn shx shl bdim_def)
  ultimately show ?thesis by blast
qed

text \<open>
  The claim C3 as stated ties \<open>repeat_noise=true\<close> to the steps that remain: a step with
  more than \<open>repeat_noise_steps\<close> steps remaining would repeat the noise. The code counts
  the steps done. With \<open>T = 2\<close>, \<open>repeat_noise_steps = 0\<close>, a batch of two and a noise source
  that records the shapes it is asked for: the record of the run is the repeated initial
  draw (\<open>[1, 1, 1, 1]\<close>) followed by two draws of shape \<open>[2, 1, 1, 1]\<close>, so the first step
  (timestep \<open>1\<close>, two steps remaining, more than \<open>0\<close>) drew independent noise for the two
  batch elements: it was invoked with \<open>repeat_noise=false\<close>. Invoked with
  \<open>repeat_noise=true\<close>, as the claim has it, that step asks for the shape \<open>[1, 1, 1, 1]\<close>.
\<close>

theorem trajectory_repeat_noise_counterexample:
  "\<exists>gd. GaussianDiffusion_init [Fin (1/2), Fin (1/4)] ''noisepred'' = Inr gd \<and>
     (\<exists>tms imgs.
        p_sample_loop_trajectory gd (\<lambda>x t. x) [2, 1, 1, 1]
            (\<lambda>s g. (\<lparr> shape = s, rows = replicate (hd s) (replicate (prod_list (tl s)) (Fin 0)) \<rparr>,
                     g @ [s])) 0 []
          = Inr (tms, imgs, [[1, 1, 1, 1], [2, 1, 1, 1], [2, 1, 1, 1]])) \<and>
     (\<exists>img.
        p_sample gd (\<lambda>x t. x) \<lparr> shape = [2, 1, 1, 1], rows = [[Fin 0], [Fin 0]] \<rparr> [1, 1]
            (\<lambda>s g. (\<lparr> shape = s, rows = replicate (hd s) (replicate (prod_list (tl s)) (Fin 0)) \<rparr>,
                     g @ [s])) True True [[1, 1, 1, 1]]
          = Inr (img, [[1, 1, 1, 1], [1, 1, 1, 1]]))"
proof -
  let ?nf = "\<lambda>(s::nat list) (g::nat list list).
               (\<lparr> shape = s, rows = replicate (hd s) (replicate (prod_list (tl s)) (Fin 0)) \<rparr>, g @ [s])"
  let ?dn = "\<lambda>(x::tensor) (t::int list). x"
  let ?img0 = "\<lparr> shape = [2, 1, 1, 1], rows = [[Fin 0], [Fin 0]] \<rparr>"
  obtain gd where gd: "GaussianDiffusion_init [Fin (1/2), Fin (1/4)] ''noisepred'' = Inr gd"
    using init_succeeds[of "[Fin (1/2), Fin (1/4)]" "''noisepred''"]
    by (auto simp: in_unit_interval_def)
  have gd': "GaussianDiffusion_init (map Fin [1/2, 1/4]) ''noisepred'' = Inr gd" using gd by simp
  have nt: "num_timesteps gd = 2" using init_tables(3)[OF gd'] by simp
  have dn: "\<forall>y u. shape (?dn y u) = shape y" by simp
  have nf: "\<forall>s g. shape (fst (?nf s g)) = s" by simp
  have r: "(0::int) \<le> int (length [Fin (1/2), Fin (1/4)])" by simp
  have calls: "trajectory_calls (Suc (Suc 0)) 0 = [(1, False), (0, False)]"
    by (simp add: trajectory_calls_def countdown_def)
  have nl: "noise_like [2, 1, 1, 1] ?nf True [] = Inr (?img0, [[1, 1, 1, 1]])"
    by (simp add: noise_like_def tf_repeat0_def numeral_2_eq_2)
  have s0: "shape ?img0 = [2, 1, 1, 1]" by simp
  have t1: "length (replicate 2 (1::int)) = 2"
           "\<forall>i\<in>set (replicate 2 (1::int)). 0 \<le> i \<and> i < num_timesteps gd"
    by (simp_all add: nt)
  have t0: "length (replicate 2 (0::int)) = 2"
           "\<forall>i\<in>set (replicate 2 (0::int)). 0 \<le> i \<and> i < num_timesteps gd"
    by (simp_all add: nt)
  obtain img1 where
      p1: "p_sample gd ?dn ?img0 (replicate 2 1) ?nf True False [[1, 1, 1, 1]]
             = Inr (img1, [[1, 1, 1, 1], [2, 1, 1, 1]])"
      and s1: "shape img1 = [2, 1, 1, 1]"
    using p_sample_ok_rep[OF gd s0 t1 dn nf, of False "[[1, 1, 1, 1]]"] by auto
  obtain img2 where
      p2: "p_sample gd ?dn img1 (replicate 2 0) ?nf True False [[1, 1, 1, 1], [2, 1, 1, 1]]
             = Inr (img2, [[1, 1, 1, 1], [2, 1, 1, 1], [2, 1, 1, 1]])"
      and s2: "shape img2 = [2, 1, 1, 1]"
    using p_sample_ok_rep[OF gd s1 t0 dn nf, of False "[[1, 1, 1, 1], [2, 1, 1, 1]]"] by auto
  have code: "p_sample_loop_trajectory gd ?dn [2, 1, 1, 1] ?nf 0 []
                = Inr ([1, 0, - 1], [?img0, img1, img2], [[1, 1, 1, 1], [2, 1, 1, 1], [2, 1, 1, 1]])"
    using trajectory_eq_steps[OF gd r, of ?dn 2 "[1, 1, 1]" ?nf "[]"]
    by (simp add: calls nl p1 p2 s2 del: One_nat_def)
  obtain img where
      p3: "p_sample gd ?dn ?img0 (replicate 2 1) ?nf True True [[1, 1, 1, 1]]
             = Inr (img, [[1, 1, 1, 1], [1, 1, 1, 1]])"
    using p_sample_ok_rep[OF gd s0 t1 dn nf, of True "[[1, 1, 1, 1]]"] by auto
  have rep21: "replicate 2 (1::int) = [1, 1]" by (simp add: numeral_2_eq_2)
  show ?thesis using gd code p3[unfolded rep21] by blast
qed

end
